theory Spec2Isabelle
  imports Complex_Main "HOL-Library.Char_ord" "HOL-Library.List_Lexorder"
begin

section \<open>Python values shared by both projects\<close>

text \<open>
  Python \<open>str\<close> values are modelled as \<^typ>\<open>string\<close>, one \<^typ>\<open>char\<close> per code point,
  which covers the code points below 256 (Latin-1, enough for the Spanish corpus and
  for file names and column names).  The numbers in the cells of a table and the
  metrics are idealised as \<^typ>\<open>rat\<close>: every finite float is a rational, rounding of
  arithmetic is not modelled, and NaN is written \<open>None\<close> where a cell may hold it.
  The numbers that the program prints, the intercept and the coefficients of a fit,
  are floats with their negative zero, infinities and NaN.
\<close>

datatype error =
    FileNotFoundError
  | ValueError
  | KeyError
  | AttributeError
  | EmptyDataError
  | ParserError
  | IndexError
  | OtherError string

text \<open>\<open>str.isspace\<close> and the \<open>\s\<close> class of \<open>re\<close> on code points below 256.\<close>

definition is_space :: "char \<Rightarrow> bool" where
  "is_space c =
     (let n = (of_char c :: nat)
      in (9 \<le> n \<and> n \<le> 13) \<or> (28 \<le> n \<and> n \<le> 32) \<or> n = 133 \<or> n = 160)"

text \<open>The \<open>\d\<close> class of \<open>re\<close> on code points below 256: the ASCII digits.\<close>

definition is_digit :: "char \<Rightarrow> bool" where
  "is_digit c = (let n = (of_char c :: nat) in 48 \<le> n \<and> n \<le> 57)"

definition newline :: char where
  "newline = CHR 0x0A"

text \<open>The \<open>.\<close> of \<open>re\<close> without DOTALL: any character but the newline.\<close>

definition is_dot :: "char \<Rightarrow> bool" where
  "is_dot c = (c \<noteq> newline)"

text \<open>\<open>str.strip()\<close> with no argument.\<close>

definition strip :: "string \<Rightarrow> string" where
  "strip s = rev (dropWhile is_space (rev (dropWhile is_space s)))"

section \<open>EmotionAnalyser: \<open>load_data.py\<close>\<close>

subsection \<open>A backtracking matcher for the two patterns of \<open>clean\<close>\<close>

text \<open>
  \<open>re.search\<close> tries the start positions from left to right and, at each one, explores
  the alternatives of the pattern in priority order: a greedy \<open>*\<close> first takes as
  many characters as it can and gives them back one by one, a lazy \<open>+?\<close> first takes
  one character and then one more at a time.  The continuation \<open>k\<close> is the rest of the
  pattern; the first success is the match.
\<close>

fun lit :: "string \<Rightarrow> string \<Rightarrow> string option" where
  "lit [] s = Some s"
| "lit (p # ps) [] = None"
| "lit (p # ps) (c # cs) = (if p = c then lit ps cs else None)"

fun star_greedy :: "(char \<Rightarrow> bool) \<Rightarrow> (string \<Rightarrow> 'a option) \<Rightarrow> string \<Rightarrow> 'a option" where
  "star_greedy p k [] = k []"
| "star_greedy p k (c # cs) =
     (if p c
      then (case star_greedy p k cs of Some r \<Rightarrow> Some r | None \<Rightarrow> k (c # cs))
      else k (c # cs))"

fun plus_lazy ::
  "(char \<Rightarrow> bool) \<Rightarrow> (string \<Rightarrow> string \<Rightarrow> 'a option) \<Rightarrow> string \<Rightarrow> string \<Rightarrow> 'a option" where
  "plus_lazy p k acc [] = None"
| "plus_lazy p k acc (c # cs) =
     (if p c
      then (case k (acc @ [c]) cs of
              Some r \<Rightarrow> Some r
            | None \<Rightarrow> plus_lazy p k (acc @ [c]) cs)
      else None)"

fun search :: "(string \<Rightarrow> 'a option) \<Rightarrow> string \<Rightarrow> 'a option" where
  "search m [] = m []"
| "search m (c # cs) = (case m (c # cs) of Some r \<Rightarrow> Some r | None \<Rightarrow> search m cs)"

text \<open>\<open>Frase:\s*(.+?)\. Clasifica\<close> at one start position; the result is group 1.\<close>

definition match_frase :: "string \<Rightarrow> string option" where
  "match_frase s =
     (case lit ''Frase:'' s of
        None \<Rightarrow> None
      | Some r \<Rightarrow>
          star_greedy is_space
            (plus_lazy is_dot
               (\<lambda>g rest. case lit ''. Clasifica'' rest of None \<Rightarrow> None | Some _ \<Rightarrow> Some g)
               [])
            r)"

text \<open>\<open>\[/INST\]\s*(\d)\s*</s>\<close> at one start position; the result is group 1.\<close>

definition match_label :: "string \<Rightarrow> string option" where
  "match_label s =
     (case lit ''[/INST]'' s of
        None \<Rightarrow> None
      | Some r \<Rightarrow>
          star_greedy is_space
            (\<lambda>r1. case r1 of
                     [] \<Rightarrow> None
                   | d # r2 \<Rightarrow>
                       if is_digit d
                       then star_greedy is_space
                              (\<lambda>r3. case lit ''</s>'' r3 of None \<Rightarrow> None | Some _ \<Rightarrow> Some [d])
                              r2
                       else None)
            r)"

text \<open>
  \<open>int(s)\<close> on a string of decimal digits; any other string is a \<open>ValueError\<close> here
  (signs, underscores and surrounding blanks, which \<open>int\<close> also accepts, cannot occur
  in a group matched by \<open>\d\<close>).
\<close>

definition digit_val :: "char \<Rightarrow> int" where
  "digit_val c = int (of_char c) - 48"

definition py_int :: "string \<Rightarrow> error + int" where
  "py_int s =
     (if s \<noteq> [] \<and> list_all is_digit s
      then Inr (foldl (\<lambda>a c. 10 * a + digit_val c) 0 s)
      else Inl ValueError)"

record cleaned =
  frase :: string
  label :: int

definition clean :: "string \<Rightarrow> error + cleaned" where
  "clean raw_text =
     (let match_frase = search match_frase raw_text;
          frase = (case match_frase of Some g \<Rightarrow> strip g | None \<Rightarrow> [])
      in case search match_label raw_text of
           None \<Rightarrow> Inr \<lparr>frase = frase, label = - 1\<rparr>
         | Some g \<Rightarrow>
             (case py_int g of
                Inl e \<Rightarrow> Inl e
              | Inr n \<Rightarrow> Inr \<lparr>frase = frase, label = n\<rparr>))"

definition label2emotion :: "int \<rightharpoonup> string" where
  "label2emotion =
     map_of
       [(0, ''ira''),
        (1, ''satisfacci'' @ [CHR 0xF3] @ ''n''),
        (2, ''tristeza''),
        (3, ''culpa''),
        (4, ''verg'' @ [CHR 0xFC] @ ''enza''),
        (5, ''miedo''),
        (6, ''asco'')]"

record labelled = cleaned +
  emocion :: string

definition add_emotion :: "cleaned \<Rightarrow> labelled" where
  "add_emotion example =
     \<lparr>frase = frase example, label = label example,
      emocion = (case label2emotion (label example) of
                   Some e \<Rightarrow> e
                 | None \<Rightarrow> ''desconocido'')\<rparr>"

text \<open>
  The language of the two patterns, stated without reference to the matcher: a text
  matches when it splits into the pieces the pattern names.
\<close>

definition frase_pattern_occurs :: "string \<Rightarrow> bool" where
  "frase_pattern_occurs t =
     (\<exists>pre ws g post.
         t = pre @ ''Frase:'' @ ws @ g @ ''. Clasifica'' @ post \<and>
         list_all is_space ws \<and> g \<noteq> [] \<and> list_all is_dot g)"

definition label_pattern_occurs :: "string \<Rightarrow> bool" where
  "label_pattern_occurs t =
     (\<exists>pre ws d ws' post.
         t = pre @ ''[/INST]'' @ ws @ [d] @ ws' @ ''</s>'' @ post \<and>
         list_all is_space ws \<and> is_digit d \<and> list_all is_space ws')"

section \<open>Regression Maker: the table\<close>

text \<open>
  A pandas \<open>DataFrame\<close> as the program uses it: a row count (the index) and named
  columns in order.  A column of a \<open>number\<close> dtype holds floats, with NaN as
  \<open>None\<close>; a column of any other dtype holds objects, of which only three things
  are observed by the program: whether the cell is \<open>None\<close>, whether it is NaN, and
  otherwise the text that \<open>str\<close> gives for it.
\<close>

datatype obj = PyNone | PyNaN | PyStr string

datatype column = NumCol "rat option list" | ObjCol "obj list"

record dataframe =
  nrows :: nat
  columns :: "(string \<times> column) list"

fun col_len :: "column \<Rightarrow> nat" where
  "col_len (NumCol xs) = length xs"
| "col_len (ObjCol os) = length os"

definition wf_dataframe :: "dataframe \<Rightarrow> bool" where
  "wf_dataframe d =
     (list_all (\<lambda>(n, c). col_len c = nrows d) (columns d) \<and> distinct (map fst (columns d)))"

text \<open>\<open>DataFrame.empty\<close>: some axis has length 0.\<close>

definition df_empty :: "dataframe \<Rightarrow> bool" where
  "df_empty d = (nrows d = 0 \<or> columns d = [])"

text \<open>\<open>isnull()\<close> on one column, and \<open>isnull().sum()\<close> per column.\<close>

definition obj_isnull :: "obj \<Rightarrow> bool" where
  "obj_isnull x = (x = PyNone \<or> x = PyNaN)"

fun col_isnull :: "column \<Rightarrow> bool list" where
  "col_isnull (NumCol xs) = map (\<lambda>x. x = None) xs"
| "col_isnull (ObjCol os) = map obj_isnull os"

definition null_count :: "column \<Rightarrow> nat" where
  "null_count c = length (filter (\<lambda>b. b) (col_isnull c))"

definition isnull_sum :: "dataframe \<Rightarrow> (string \<times> nat) list" where
  "isnull_sum d = map (\<lambda>(n, c). (n, null_count c)) (columns d)"

text \<open>The cells of one row, to state what a row is.\<close>

datatype cell = NumCell "rat option" | ObjCell obj

fun cell_isnull :: "cell \<Rightarrow> bool" where
  "cell_isnull (NumCell x) = (x = None)"
| "cell_isnull (ObjCell x) = obj_isnull x"

fun col_cell :: "column \<Rightarrow> nat \<Rightarrow> cell" where
  "col_cell (NumCol xs) i = NumCell (xs ! i)"
| "col_cell (ObjCol os) i = ObjCell (os ! i)"

definition row :: "dataframe \<Rightarrow> nat \<Rightarrow> cell list" where
  "row d i = map (\<lambda>(n, c). col_cell c i) (columns d)"

definition rows :: "dataframe \<Rightarrow> cell list list" where
  "rows d = map (row d) [0..<nrows d]"

text \<open>
  \<open>DataFrame.dropna()\<close> with its defaults: a row is dropped when any of its cells is
  null; the columns keep their names, order and dtype.
\<close>

definition keep_mask :: "dataframe \<Rightarrow> bool list" where
  "keep_mask d =
     map (\<lambda>i. \<not> list_ex (\<lambda>(n, c). col_isnull c ! i) (columns d)) [0..<nrows d]"

definition pick :: "bool list \<Rightarrow> 'a list \<Rightarrow> 'a list" where
  "pick keep xs = map fst (filter snd (zip xs keep))"

fun col_pick :: "bool list \<Rightarrow> column \<Rightarrow> column" where
  "col_pick keep (NumCol xs) = NumCol (pick keep xs)"
| "col_pick keep (ObjCol os) = ObjCol (pick keep os)"

definition dropna :: "dataframe \<Rightarrow> dataframe" where
  "dropna d =
     (let keep = keep_mask d
      in \<lparr>nrows = length (filter (\<lambda>b. b) keep),
          columns = map (\<lambda>(n, c). (n, col_pick keep c)) (columns d)\<rparr>)"

text \<open>\<open>select_dtypes(include=["number"])\<close>: the numeric columns, in order.\<close>

fun select_number :: "(string \<times> column) list \<Rightarrow> (string \<times> rat option list) list" where
  "select_number [] = []"
| "select_number ((n, NumCol xs) # cs) = (n, xs) # select_number cs"
| "select_number ((n, ObjCol os) # cs) = select_number cs"

subsection \<open>\<open>sklearn.impute.SimpleImputer\<close>\<close>

datatype strategy = Mean | Median | Constant rat

definition present :: "rat option list \<Rightarrow> rat list" where
  "present xs = List.map_filter (\<lambda>x. x) xs"

definition median :: "rat list \<Rightarrow> rat" where
  "median vs =
     (let s = sort vs; n = length s
      in if odd n then s ! (n div 2) else (s ! (n div 2 - 1) + s ! (n div 2)) / 2)"

text \<open>The statistic learnt by \<open>fit\<close> for one feature; \<open>None\<close> is NaN (no value seen).\<close>

fun statistic :: "strategy \<Rightarrow> rat option list \<Rightarrow> rat option" where
  "statistic Mean xs =
     (let vs = present xs
      in if vs = [] then None else Some (sum_list vs / of_nat (length vs)))"
| "statistic Median xs =
     (let vs = present xs in if vs = [] then None else Some (median vs))"
| "statistic (Constant c) xs = Some c"

definition impute :: "rat \<Rightarrow> rat option list \<Rightarrow> rat list" where
  "impute s xs = map (\<lambda>x. case x of None \<Rightarrow> s | Some v \<Rightarrow> v) xs"

text \<open>
  \<open>fit_transform\<close> on the numeric block, given by columns: input validation asks for
  at least one sample and one feature; a feature whose statistic is NaN is dropped
  from the output (\<open>keep_empty_features=False\<close>); with the constant strategy no
  statistic is NaN, so no feature is dropped (scikit-learn before 1.8).
\<close>

definition fit_transform :: "strategy \<Rightarrow> nat \<Rightarrow> rat option list list \<Rightarrow> error + rat list list" where
  "fit_transform s n X =
     (if n = 0 \<or> X = [] then Inl ValueError
      else Inr (List.map_filter
                  (\<lambda>xs. case statistic s xs of None \<Rightarrow> None | Some v \<Rightarrow> Some (impute v xs))
                  X))"

text \<open>
  \<open>df[num_cols] = array\<close>: the array must have as many columns as there are keys;
  then the i-th numeric column is replaced by the i-th column of the array.
\<close>

fun assign_number :: "(string \<times> column) list \<Rightarrow> rat list list \<Rightarrow> (string \<times> column) list" where
  "assign_number [] X = []"
| "assign_number ((n, ObjCol os) # cs) X = (n, ObjCol os) # assign_number cs X"
| "assign_number ((n, NumCol xs) # cs) [] = (n, NumCol xs) # assign_number cs []"
| "assign_number ((n, NumCol xs) # cs) (x # X) = (n, NumCol (map Some x)) # assign_number cs X"

text \<open>The three lines shared by \<open>fill_with_mean\<close>, \<open>fill_with_median\<close> and
  \<open>fill_with_constant\<close>, on the table alone.\<close>

definition fill_number :: "strategy \<Rightarrow> dataframe \<Rightarrow> error + dataframe" where
  "fill_number s d =
     (let num_cols = select_number (columns d)
      in case fit_transform s (nrows d) (map snd num_cols) of
           Inl e \<Rightarrow> Inl e
         | Inr X \<Rightarrow>
             if length X \<noteq> length num_cols then Inl ValueError
             else Inr (d\<lparr>columns := assign_number (columns d) X\<rparr>))"

section \<open>Regression Maker: \<open>import_files.py\<close>\<close>

text \<open>
  What \<open>import_data\<close> sees of the outside: whether a path exists, and what each
  pandas reader does on a path, which is either a table or the exception it raises.
\<close>

record env =
  path_exists :: "string \<Rightarrow> bool"
  read_csv :: "string \<Rightarrow> error + dataframe"
  read_excel_file :: "string \<Rightarrow> error + dataframe"
  read_sqlite :: "string \<Rightarrow> error + dataframe"

text \<open>\<open>str.rfind\<close> of one character: the last index, or \<open>-1\<close>.\<close>

fun rfind :: "char \<Rightarrow> string \<Rightarrow> int" where
  "rfind x [] = - 1"
| "rfind x (c # cs) =
     (let r = rfind x cs in if r \<ge> 0 then r + 1 else if c = x then 0 else - 1)"

text \<open>
  \<open>os.path.splitext\<close> (POSIX): the extension starts at the last dot of the last path
  component, unless that component has only dots before it.
\<close>

definition splitext :: "string \<Rightarrow> string \<times> string" where
  "splitext p =
     (let sepIndex = rfind (CHR ''/'') p; dotIndex = rfind (CHR ''.'') p
      in if dotIndex > sepIndex \<and>
            list_ex (\<lambda>c. c \<noteq> CHR ''.'')
              (take (nat (dotIndex - (sepIndex + 1))) (drop (nat (sepIndex + 1)) p))
         then (take (nat dotIndex) p, drop (nat dotIndex) p)
         else (p, []))"

text \<open>\<open>str.lower\<close> on code points below 256.\<close>

definition lower_char :: "char \<Rightarrow> char" where
  "lower_char c =
     (let n = (of_char c :: nat)
      in if (65 \<le> n \<and> n \<le> 90) \<or> (192 \<le> n \<and> n \<le> 222 \<and> n \<noteq> 215)
         then char_of (n + 32) else c)"

definition lower :: "string \<Rightarrow> string" where
  "lower s = map lower_char s"

definition import_data :: "env \<Rightarrow> string \<Rightarrow> error + dataframe" where
  "import_data e file_path =
     (if \<not> path_exists e file_path then Inl FileNotFoundError
      else
        let file_ext = lower (snd (splitext file_path));
            r = (if file_ext = ''.csv'' then read_csv e file_path
                 else if file_ext \<in> set [''.xlsx'', ''.xls''] then read_excel_file e file_path
                 else if file_ext \<in> set [''.sqlite'', ''.db''] then read_sqlite e file_path
                 else Inl ValueError)
        in case r of
             Inl EmptyDataError \<Rightarrow> Inl ValueError
           | Inl ParserError \<Rightarrow> Inl ValueError
           | _ \<Rightarrow> r)"

text \<open>The claim of the specification about \<open>import_data\<close>, in its own words.\<close>

definition supported_ext :: "string \<Rightarrow> bool" where
  "supported_ext x = (x \<in> set [''.csv'', ''.xlsx'', ''.xls'', ''.sqlite'', ''.db''])"

definition import_spec :: "env \<Rightarrow> string \<Rightarrow> bool" where
  "import_spec e p =
     ((import_data e p = Inl FileNotFoundError \<longleftrightarrow> \<not> path_exists e p) \<and>
      (path_exists e p \<longrightarrow>
         (\<not> supported_ext (lower (snd (splitext p))) \<longrightarrow> import_data e p = Inl ValueError) \<and>
         (import_data e p = Inl ValueError \<or> (\<exists>t. import_data e p = Inr t))))"

text \<open>The reader that the extension dispatch of \<open>import_data\<close> selects.\<close>

definition reader_for :: "env \<Rightarrow> string \<Rightarrow> string \<Rightarrow> error + dataframe" where
  "reader_for e file_ext =
     (if file_ext = ''.csv'' then read_csv e
      else if file_ext = ''.xlsx'' \<or> file_ext = ''.xls'' then read_excel_file e
      else read_sqlite e)"

text \<open>
  A concrete surrounding: every path exists and holds a SQLite database without the
  table \<open>test_table\<close> that \<open>_read_sqlite\<close> queries, so that pandas raises its
  \<open>DatabaseError\<close>.
\<close>

definition db_without_table :: env where
  "db_without_table =
     \<lparr>path_exists = (\<lambda>p. True),
      read_csv = (\<lambda>p. Inl EmptyDataError),
      read_excel_file = (\<lambda>p. Inl (OtherError ''BadZipFile'')),
      read_sqlite = (\<lambda>p. Inl (OtherError ''DatabaseError''))\<rparr>"

section \<open>Regression Maker: \<open>scikit_learn.py\<close>\<close>

subsection \<open>Label encoding of the non-numeric columns\<close>

text \<open>\<open>Series.astype(str)\<close> on an object column.\<close>

fun astype_str :: "obj \<Rightarrow> string" where
  "astype_str PyNone = ''None''"
| "astype_str PyNaN = ''nan''"
| "astype_str (PyStr s) = s"

text \<open>
  \<open>LabelEncoder().fit_transform\<close>: the classes are the distinct values in sorted
  order (strings compare by code point), and each value is replaced by the index of
  its class.
\<close>

definition classes :: "string list \<Rightarrow> string list" where
  "classes ys = sort (remdups ys)"

definition class_index :: "string list \<Rightarrow> string \<Rightarrow> nat" where
  "class_index cs y = length (takeWhile (\<lambda>c. c \<noteq> y) cs)"

definition label_encode :: "string list \<Rightarrow> nat list" where
  "label_encode ys = map (class_index (classes ys)) ys"

text \<open>The two assignments of the loop body, as the new content of the column:
  the codes, as \<open>float64\<close>.\<close>

definition encoded :: "obj list \<Rightarrow> column" where
  "encoded os = NumCol (map (\<lambda>k. Some (of_nat k)) (label_encode (map astype_str os)))"

text \<open>\<open>select_dtypes(exclude=["number"]).columns\<close>.\<close>

fun non_numeric_columns :: "(string \<times> column) list \<Rightarrow> string list" where
  "non_numeric_columns [] = []"
| "non_numeric_columns ((n, NumCol xs) # cs) = non_numeric_columns cs"
| "non_numeric_columns ((n, ObjCol os) # cs) = n # non_numeric_columns cs"

text \<open>\<open>data[column] = values\<close> for a column that exists: replaced in place.\<close>

definition set_column :: "dataframe \<Rightarrow> string \<Rightarrow> column \<Rightarrow> dataframe" where
  "set_column d n c =
     d\<lparr>columns := map (\<lambda>(m, old). if m = n then (m, c) else (m, old)) (columns d)\<rparr>"

text \<open>
  One pass of the loop.  The column read by \<open>data[column]\<close> is an object column when
  the names are distinct, which \<open>wf_dataframe\<close> asks for; the other cases leave the
  table as it is.
\<close>

definition encode_step :: "string \<Rightarrow> dataframe \<Rightarrow> dataframe" where
  "encode_step n d =
     (case map_of (columns d) n of
        Some (ObjCol os) \<Rightarrow> set_column d n (encoded os)
      | _ \<Rightarrow> d)"

definition encode_non_numeric :: "dataframe \<Rightarrow> dataframe" where
  "encode_non_numeric d = fold encode_step (non_numeric_columns (columns d)) d"

subsection \<open>Formatting\<close>

text \<open>
  A Python float as \<open>format\<close> sees it: \<open>Finite x\<close> is a finite float of exact value
  \<open>x\<close>, where \<open>Finite 0\<close> is the positive zero and \<open>NegZero\<close> is \<open>-0.0\<close>;
  the rest are the infinities and NaN.
\<close>

datatype pyfloat = Finite rat | NegZero | PosInf | NegInf | NaN

text \<open>
  \<open>format(x, ".2f")\<close>: the exact value of a finite float is rounded to two decimals,
  ties to even, and the sign of a negative value is kept even when it rounds to
  zero; the negative zero prints with its sign, infinities and NaN by name.
\<close>

definition digit_char :: "nat \<Rightarrow> char" where
  "digit_char n = char_of (48 + n)"

fun digits :: "nat \<Rightarrow> string" where
  "digits n = (if n < 10 then [digit_char n] else digits (n div 10) @ [digit_char (n mod 10)])"

definition round_half_even :: "rat \<Rightarrow> int" where
  "round_half_even q =
     (let f = \<lfloor>q\<rfloor>; d = q - of_int f
      in if d < 1 / 2 then f
         else if d > 1 / 2 then f + 1
         else if even f then f else f + 1)"

definition fmt2_finite :: "rat \<Rightarrow> string" where
  "fmt2_finite x =
     (let n = nat (round_half_even (\<bar>x\<bar> * 100))
      in (if x < 0 then ''-'' else '''') @ digits (n div 100) @ ''.'' @
         [digit_char (n mod 100 div 10), digit_char (n mod 10)])"

fun fmt2 :: "pyfloat \<Rightarrow> string" where
  "fmt2 (Finite x) = fmt2_finite x"
| "fmt2 NegZero = ''-0.00''"
| "fmt2 PosInf = ''inf''"
| "fmt2 NegInf = ''-inf''"
| "fmt2 NaN = ''nan''"

text \<open>\<open>repr\<close> of a \<open>str\<close> on code points below 256, and \<open>str\<close> of a list of them.\<close>

definition hex_char :: "nat \<Rightarrow> char" where
  "hex_char n = (if n < 10 then char_of (48 + n) else char_of (87 + n))"

definition printable :: "char \<Rightarrow> bool" where
  "printable c =
     (let n = (of_char c :: nat)
      in (32 \<le> n \<and> n < 127) \<or> (161 \<le> n \<and> n \<noteq> 173))"

definition repr_char :: "char \<Rightarrow> char \<Rightarrow> string" where
  "repr_char quote c =
     (if c = quote \<or> c = CHR 0x5C then [CHR 0x5C, c]
      else if c = CHR 0x09 then [CHR 0x5C, CHR ''t'']
      else if c = CHR 0x0A then [CHR 0x5C, CHR ''n'']
      else if c = CHR 0x0D then [CHR 0x5C, CHR ''r'']
      else if printable c then [c]
      else [CHR 0x5C, CHR ''x'', hex_char (of_char c div 16), hex_char (of_char c mod 16)])"

definition repr_str :: "string \<Rightarrow> string" where
  "repr_str s =
     (let quote = (if CHR 0x27 \<in> set s \<and> CHR 0x22 \<notin> set s then CHR 0x22 else CHR 0x27)
      in [quote] @ concat (map (repr_char quote) s) @ [quote])"

fun join :: "string \<Rightarrow> string list \<Rightarrow> string" where
  "join sep [] = []"
| "join sep [x] = x"
| "join sep (x # y # ys) = x @ sep @ join sep (y # ys)"

text \<open>
  The second argument of \<open>linear_regression\<close>: the docstring calls it a column name,
  the wizard passes the list of selected items (\<open>confirm_selection\<close>).
\<close>

datatype col_arg = ColName string | ColList "string list"

fun str_of :: "col_arg \<Rightarrow> string" where
  "str_of (ColName s) = s"
| "str_of (ColList ss) = ''['' @ join '', '' (map repr_str ss) @ '']''"

text \<open>The loop that appends one term per coefficient; \<open>input_columns[i]\<close> raises
  past the end of the list.\<close>

fun add_terms :: "string \<Rightarrow> pyfloat list \<Rightarrow> string list \<Rightarrow> error + string" where
  "add_terms formula [] names = Inr formula"
| "add_terms formula (coef # coefs) [] = Inl IndexError"
| "add_terms formula (coef # coefs) (name # names) =
     add_terms (formula @ '' + ('' @ fmt2 coef @ '') * '' @ name) coefs names"

definition build_formula :: "col_arg \<Rightarrow> pyfloat \<Rightarrow> pyfloat list \<Rightarrow> string list \<Rightarrow> error + string" where
  "build_formula output_columns intercept coefficients input_columns =
     add_terms (str_of output_columns @ '' = '' @ fmt2 intercept) coefficients input_columns"

text \<open>The formula as the specification writes it:
  \<open>out = b + (c_1)*col_1 + ... + (c_n)*col_n\<close>, numbers with two decimals.\<close>

fun spec_terms :: "pyfloat list \<Rightarrow> string list \<Rightarrow> string" where
  "spec_terms (c # cs) (n # ns) = '' + ('' @ fmt2 c @ '')*'' @ n @ spec_terms cs ns"
| "spec_terms _ _ = []"

definition spec_formula :: "string \<Rightarrow> pyfloat \<Rightarrow> pyfloat list \<Rightarrow> string list \<Rightarrow> string" where
  "spec_formula out b cs cols = out @ '' = '' @ fmt2 b @ spec_terms cs cols"

subsection \<open>\<open>linear_regression\<close>\<close>

text \<open>
  The fitted \<open>LinearRegression\<close> object, as far as the program reads it (the
  attributes \<open>intercept_\<close> and \<open>coef_\<close>, without the trailing underscore), and the
  scikit-learn functions that \<open>linear_regression\<close> calls.  They are parameters:
  each returns a value or raises.  \<open>train_test_split\<close> takes, besides its
  arguments \<open>test_size\<close> and \<open>random_state\<close>, the state of the global random
  generator, which it uses when \<open>random_state\<close> is \<open>None\<close>.
\<close>

record linear_model =
  intercept :: pyfloat
  coef :: "pyfloat list"

type_synonym split = "dataframe \<times> dataframe \<times> rat option list \<times> rat option list"

record sklearn =
  train_test_split :: "nat \<Rightarrow> dataframe \<Rightarrow> rat option list \<Rightarrow> rat \<Rightarrow> nat option \<Rightarrow> error + split"
  fit :: "dataframe \<Rightarrow> rat option list \<Rightarrow> error + linear_model"
  predict :: "linear_model \<Rightarrow> dataframe \<Rightarrow> error + rat list"
  mean_squared_error :: "rat option list \<Rightarrow> rat list \<Rightarrow> error + rat"
  r2_score :: "rat option list \<Rightarrow> rat list \<Rightarrow> error + rat"

text \<open>\<open>train_test_split\<close> with a seed does not read the global generator.\<close>

definition seeded :: "sklearn \<Rightarrow> bool" where
  "seeded sk =
     (\<forall>g g' x y ts s. train_test_split sk g x y ts (Some s) = train_test_split sk g' x y ts (Some s))"

text \<open>\<open>data[names]\<close> with a list of names, and \<open>data[name]\<close>.\<close>

fun getitem_list :: "dataframe \<Rightarrow> string list \<Rightarrow> error + (string \<times> column) list" where
  "getitem_list d [] = Inr []"
| "getitem_list d (n # ns) =
     (case map_of (columns d) n of
        None \<Rightarrow> Inl KeyError
      | Some c \<Rightarrow>
          (case getitem_list d ns of Inl e \<Rightarrow> Inl e | Inr cs \<Rightarrow> Inr ((n, c) # cs)))"

text \<open>The values of a column as floats; after the encoding every column is numeric.\<close>

fun col_values :: "column \<Rightarrow> rat option list" where
  "col_values (NumCol xs) = xs"
| "col_values (ObjCol os) = map (\<lambda>x. None) os"

text \<open>\<open>data[output_columns].values.ravel()\<close>: row by row when a list selects a
  two-dimensional block.\<close>

fun getitem_ravel :: "dataframe \<Rightarrow> col_arg \<Rightarrow> error + rat option list" where
  "getitem_ravel d (ColName n) =
     (case map_of (columns d) n of None \<Rightarrow> Inl KeyError | Some c \<Rightarrow> Inr (col_values c))"
| "getitem_ravel d (ColList ns) =
     (case getitem_list d ns of
        Inl e \<Rightarrow> Inl e
      | Inr cs \<Rightarrow> Inr (concat (transpose (map (\<lambda>(n, c). col_values c) cs))))"

record regression =
  res_formula :: string
  res_mse :: rat
  res_r2 :: rat
  res_x_test :: dataframe
  res_y_test :: "rat option list"
  res_predictions :: "rat list"
  res_model :: linear_model

text \<open>
  The fields of \<open>regression\<close> are the components of the returned tuple.
  The function returns the table as the call leaves it (the caller's object, changed
  in place by the encoding loop whether or not a later step raises) and the tuple or
  the exception.
\<close>

definition linear_regression ::
  "sklearn \<Rightarrow> nat \<Rightarrow> dataframe \<Rightarrow> string list \<Rightarrow> col_arg \<Rightarrow> dataframe \<times> (error + regression)" where
  "linear_regression sk g data0 input_columns output_columns =
     (let data = encode_non_numeric data0
      in (data,
          case getitem_list data input_columns of
            Inl e \<Rightarrow> Inl e
          | Inr xcols \<Rightarrow>
          (case getitem_ravel data output_columns of
            Inl e \<Rightarrow> Inl e
          | Inr y \<Rightarrow>
          (case train_test_split sk g \<lparr>nrows = nrows data, columns = xcols\<rparr> y (1 / 5) (Some 42) of
            Inl e \<Rightarrow> Inl e
          | Inr (x_train, x_test, y_train, y_test) \<Rightarrow>
          (case fit sk x_train y_train of
            Inl e \<Rightarrow> Inl e
          | Inr model \<Rightarrow>
          (case predict sk model x_test of
            Inl e \<Rightarrow> Inl e
          | Inr predictions \<Rightarrow>
          (case mean_squared_error sk y_test predictions of
            Inl e \<Rightarrow> Inl e
          | Inr mse \<Rightarrow>
          (case r2_score sk y_test predictions of
            Inl e \<Rightarrow> Inl e
          | Inr r2 \<Rightarrow>
          (case build_formula output_columns (intercept model) (coef model) input_columns of
            Inl e \<Rightarrow> Inl e
          | Inr formula \<Rightarrow>
              Inr \<lparr>res_formula = formula, res_mse = mse, res_r2 = r2, res_x_test = x_test, res_y_test = y_test,
                   res_predictions = predictions, res_model = model\<rparr>)))))))))"

text \<open>The columns after the loop, column by column.\<close>

fun encode_column :: "column \<Rightarrow> column" where
  "encode_column (NumCol xs) = NumCol xs"
| "encode_column (ObjCol os) = encoded os"

text \<open>
  A library for concrete runs: the split keeps every row for training and testing
  (without a seed it depends on the global generator), the fit returns the line \<open>y = 2 x\<close>, prediction and metrics are exact.
\<close>

definition toy_sklearn :: sklearn where
  "toy_sklearn =
     \<lparr>train_test_split =
        (\<lambda>g x y ts s. case s of
                        None \<Rightarrow> if even g then Inr (x, x, y, y) else Inl ValueError
                      | Some seed \<Rightarrow> Inr (x, x, y, y)),
      fit = (\<lambda>x y. Inr \<lparr>intercept = Finite 0, coef = [Finite 2]\<rparr>),
      predict = (\<lambda>m x. case (columns x, intercept m, coef m) of
                         ([(n, c)], Finite b, [Finite a]) \<Rightarrow>
                           Inr (map (\<lambda>v. b + a * v) (present (col_values c)))
                       | _ \<Rightarrow> Inl ValueError),
      mean_squared_error = (\<lambda>y p. Inr 0),
      r2_score = (\<lambda>y p. Inr 1)\<rparr>"

definition colours :: dataframe where
  "colours =
     \<lparr>nrows = 3,
      columns = [(''x'', NumCol [Some 1, Some 2, Some 3]),
                 (''colour'', ObjCol [PyStr ''red'', PyNaN, PyStr ''blue'']),
                 (''y'', NumCol [Some 2, Some 4, Some 6])]\<rparr>"

section \<open>Regression Maker: the wizard (\<open>features.py\<close>, \<open>data_preprocessing.py\<close>)\<close>

text \<open>
  The \<open>DataViewer\<close> object: the attributes set in \<open>__init__\<close> and by
  \<open>detect_missing_values\<close> (\<open>nan_data\<close> does not exist before the first detection
  of missing values, written \<open>None\<close>), and of its widgets the state that decides
  which slots the user can trigger: a button emits \<open>clicked\<close> only while it is
  visible and enabled.  \<open>data_table\<close> is the \<open>Table\<close> model built from the frame,
  or \<open>None\<close>.  Labels, separators, the table view and the selectors of step 3 carry
  no state that the navigation reads and are left out.
\<close>

record viewer =
  df :: "dataframe option"
  last_file_path :: "string option"
  input_columns :: "string list"
  output_column :: "string list"
  empty_values :: bool
  data_table :: "dataframe option"
  nan_solved :: bool
  nan_data :: "bool option"
  move :: int
  welcome_visible :: bool
  load_button_visible :: bool
  back_button_visible :: bool
  return_button_visible :: bool
  return_button_enabled :: bool
  next_button_visible :: bool
  next_button_enabled :: bool
  options_visible :: bool
  options_enabled :: bool
  options_index :: nat
  apply_button_visible :: bool
  apply_button_enabled :: bool
  create_model_button_visible :: bool

text \<open>
  The object after \<open>__init__\<close> and \<open>show()\<close>: every widget of the steps is created
  hidden, the welcome widget is shown; \<open>next_button\<close> and \<open>apply_button\<close> are
  created disabled.
\<close>

definition init :: viewer where
  "init =
     \<lparr>df = None, last_file_path = None, input_columns = [], output_column = [],
      empty_values = False, data_table = None, nan_solved = False, nan_data = None,
      move = 1, welcome_visible = True, load_button_visible = False,
      back_button_visible = False, return_button_visible = False,
      return_button_enabled = True, next_button_visible = False,
      next_button_enabled = False, options_visible = False, options_enabled = True,
      options_index = 0, apply_button_visible = False, apply_button_enabled = False,
      create_model_button_visible = False\<rparr>"

subsection \<open>The methods of \<open>DataViewer\<close> that \<open>data_preprocessing.py\<close> calls\<close>

definition display_data_in_table :: "viewer \<Rightarrow> viewer" where
  "display_data_in_table v =
     v\<lparr>data_table := df v, load_button_visible := False, next_button_enabled := True,
       back_button_visible := (move v = 1)\<rparr>"

text \<open>The slot of the combo box, and \<open>setCurrentIndex\<close>, which calls it when the
  index changes.\<close>

definition preprocessing_button :: "viewer \<Rightarrow> viewer" where
  "preprocessing_button v = v\<lparr>apply_button_enabled := (options_index v \<noteq> 0)\<rparr>"

definition setCurrentIndex :: "nat \<Rightarrow> viewer \<Rightarrow> viewer" where
  "setCurrentIndex i v =
     (if options_index v = i then v else preprocessing_button (v\<lparr>options_index := i\<rparr>))"

subsection \<open>\<open>data_preprocessing.py\<close>\<close>

definition detect_missing_values :: "viewer \<Rightarrow> viewer" where
  "detect_missing_values v =
     (case df v of
        None \<Rightarrow> v
      | Some d \<Rightarrow>
          if sum_list (map snd (isnull_sum d)) \<noteq> 0
          then (setCurrentIndex 0 (v\<lparr>empty_values := True, nan_data := Some True\<rparr>))
                 \<lparr>options_enabled := True\<rparr>
          else v\<lparr>empty_values := False\<rparr>)"

definition remove_missing_values :: "viewer \<Rightarrow> viewer" where
  "remove_missing_values v =
     (case df v of
        None \<Rightarrow> v
      | Some d \<Rightarrow> display_data_in_table (v\<lparr>df := Some (dropna d)\<rparr>))"

text \<open>
  The three fill functions raise what the imputer or the assignment raises, before
  anything of the viewer has changed; then the viewer is as it was.
\<close>

definition fill_with_mean :: "viewer \<Rightarrow> error + viewer" where
  "fill_with_mean v =
     (case df v of
        None \<Rightarrow> Inr v
      | Some d \<Rightarrow>
          (case fill_number Mean d of
             Inl e \<Rightarrow> Inl e
           | Inr d' \<Rightarrow> Inr (display_data_in_table (v\<lparr>df := Some d'\<rparr>))))"

definition fill_with_median :: "viewer \<Rightarrow> error + viewer" where
  "fill_with_median v =
     (case df v of
        None \<Rightarrow> Inr v
      | Some d \<Rightarrow>
          (case fill_number Median d of
             Inl e \<Rightarrow> Inl e
           | Inr d' \<Rightarrow> Inr (display_data_in_table (v\<lparr>df := Some d'\<rparr>))))"

text \<open>\<open>fill_with_constant\<close> first asks for the number; \<open>val\<close> and \<open>ok\<close> are the
  answer of the dialog.\<close>

definition fill_with_constant :: "rat \<Rightarrow> bool \<Rightarrow> viewer \<Rightarrow> error + viewer" where
  "fill_with_constant val ok v =
     (case df v of
        None \<Rightarrow> Inr v
      | Some d \<Rightarrow>
          if ok
          then (case fill_number (Constant val) d of
                  Inl e \<Rightarrow> Inl e
                | Inr d' \<Rightarrow> Inr (display_data_in_table (v\<lparr>df := Some d'\<rparr>)))
          else Inr v)"

subsection \<open>\<open>features.py\<close>\<close>

definition load_data :: "env \<Rightarrow> string \<Rightarrow> viewer \<Rightarrow> viewer" where
  "load_data e file_path v =
     (case import_data e file_path of
        Inl err \<Rightarrow> v
      | Inr d \<Rightarrow>
          if \<not> df_empty d
          then detect_missing_values (display_data_in_table (v\<lparr>df := Some d\<rparr>))
          else v\<lparr>df := Some d\<rparr>)"

text \<open>\<open>file_path\<close> is what the file dialog returns (empty when cancelled), \<open>yes\<close>
  the answer to the question asked when the same file is chosen again.\<close>

definition open_file_dialog :: "env \<Rightarrow> string \<Rightarrow> bool \<Rightarrow> viewer \<Rightarrow> viewer" where
  "open_file_dialog e file_path yes v =
     (if file_path \<noteq> []
      then (if last_file_path v = Some file_path
            then (if yes then load_data e file_path v else v)
            else load_data e file_path (v\<lparr>last_file_path := Some file_path\<rparr>))
      else v)"

text \<open>\<open>open_file_dialog\<close> returns nothing, so the rest of
  \<open>clear_table_and_choose_file\<close> never runs.\<close>

definition clear_table_and_choose_file :: "env \<Rightarrow> string \<Rightarrow> bool \<Rightarrow> viewer \<Rightarrow> viewer" where
  "clear_table_and_choose_file e file_path yes v = open_file_dialog e file_path yes v"

definition confirm_selection :: "string list \<Rightarrow> string list \<Rightarrow> viewer \<Rightarrow> viewer" where
  "confirm_selection selected_features selected_target v =
     v\<lparr>input_columns := selected_features, output_column := selected_target\<rparr>"

text \<open>
  The options of the combo box by index: 0 the placeholder, 1 remove rows, 2 mean,
  3 median, 4 constant.  An exception of the chosen function is caught and reported,
  and the rest of the \<open>try\<close> block is skipped.
\<close>

definition confirm_preprocessing :: "rat \<Rightarrow> bool \<Rightarrow> viewer \<Rightarrow> viewer" where
  "confirm_preprocessing val ok v =
     (case (if options_index v = 1 then Inr (remove_missing_values v)
            else if options_index v = 2 then fill_with_mean v
            else if options_index v = 3 then fill_with_median v
            else if options_index v = 4 then fill_with_constant val ok v
            else Inr v) of
        Inl e \<Rightarrow> v
      | Inr v1 \<Rightarrow>
          display_data_in_table
            (v1\<lparr>nan_data := Some False, next_button_enabled := True, nan_solved := True,
                options_enabled := False, apply_button_enabled := False\<rparr>))"

text \<open>\<open>show_results\<close> builds the result window on \<open>self.df\<close>, which runs
  \<open>linear_regression\<close> on that very object; what remains in the viewer is the table
  as that call leaves it.\<close>

definition show_results :: "viewer \<Rightarrow> viewer" where
  "show_results v = v\<lparr>df := map_option encode_non_numeric (df v)\<rparr>"

text \<open>\<open>layout_visibility(True, False, self.main_layout)\<close>.\<close>

definition hide_main_layout :: "viewer \<Rightarrow> viewer" where
  "hide_main_layout v =
     v\<lparr>welcome_visible := False, load_button_visible := False, back_button_visible := False,
       options_visible := False, apply_button_visible := False,
       create_model_button_visible := False, return_button_visible := False,
       next_button_visible := False\<rparr>"

definition steps_guide :: "viewer \<Rightarrow> error + viewer" where
  "steps_guide v =
     (if move v = 1 then Inr v
      else if move v = 2
      then (case nan_data v of
              None \<Rightarrow> Inl AttributeError
            | Some b \<Rightarrow> Inr (v\<lparr>next_button_enabled := \<not> b\<rparr>))
      else Inr v)"

definition drive_through :: "viewer \<Rightarrow> error + viewer" where
  "drive_through v0 =
     (let v = (hide_main_layout v0)\<lparr>return_button_visible := True, next_button_visible := True\<rparr>
      in if move v = 1
         then (case steps_guide v of
                 Inl e \<Rightarrow> Inl e
               | Inr v1 \<Rightarrow>
                   let v2 = v1\<lparr>load_button_visible := True, back_button_visible := True,
                               return_button_enabled := False\<rparr>
                   in if data_table v2 = None
                      then Inr (v2\<lparr>back_button_visible := False, next_button_enabled := False\<rparr>)
                      else Inr (v2\<lparr>load_button_visible := False, next_button_enabled := True\<rparr>))
         else if move v = 2
         then (case steps_guide v of
                 Inl e \<Rightarrow> Inl e
               | Inr v1 \<Rightarrow>
                   let v2 = v1\<lparr>options_visible := True, apply_button_visible := True,
                               return_button_enabled := True, back_button_visible := False\<rparr>
                   in if \<not> nan_solved v2
                      then Inr (v2\<lparr>next_button_enabled := False\<rparr>)
                      else Inr (v2\<lparr>next_button_enabled := True\<rparr>))
         else if move v = 3
         then (case steps_guide v of
                 Inl e \<Rightarrow> Inl e
               | Inr v1 \<Rightarrow>
                   Inr (v1\<lparr>create_model_button_visible := True, next_button_enabled := False,
                           return_button_enabled := True\<rparr>))
         else Inr v)"

definition delete_welcome :: "viewer \<Rightarrow> error + viewer" where
  "delete_welcome v = drive_through (v\<lparr>welcome_visible := False\<rparr>)"

text \<open>The methods \<open>next\<close> and \<open>back\<close>, the slots of the two navigation buttons.\<close>

definition next_slot :: "viewer \<Rightarrow> error + viewer" where
  "next_slot v =
     (if move v < 3
      then drive_through (v\<lparr>move := (if empty_values v then move v + 1 else move v + 2)\<rparr>)
      else Inr v)"

definition back_slot :: "viewer \<Rightarrow> error + viewer" where
  "back_slot v =
     (if move v > 1
      then drive_through (v\<lparr>move := (if empty_values v then move v - 1 else move v - 2)\<rparr>)
      else Inr v)"

subsection \<open>What the user can do\<close>

text \<open>
  One event per widget whose slot changes the viewer, with the answers of the dialogs
  it opens and, for the two file buttons, the surroundings at that moment.  The
  Load Model button opens another window and changes nothing here.
\<close>

datatype event =
    Start
  | ClickLoad env string bool
  | ClickChooseAnother env string bool
  | ClickNext
  | ClickReturn
  | SelectOption nat
  | ClickApply rat bool
  | ConfirmSelection "string list" "string list"
  | CreateModel

fun enabled :: "event \<Rightarrow> viewer \<Rightarrow> bool" where
  "enabled Start v = welcome_visible v"
| "enabled (ClickLoad e p yes) v = load_button_visible v"
| "enabled (ClickChooseAnother e p yes) v = back_button_visible v"
| "enabled ClickNext v = (next_button_visible v \<and> next_button_enabled v)"
| "enabled ClickReturn v = (return_button_visible v \<and> return_button_enabled v)"
| "enabled (SelectOption i) v = (options_visible v \<and> options_enabled v \<and> i < 5)"
| "enabled (ClickApply val ok) v = (apply_button_visible v \<and> apply_button_enabled v)"
| "enabled (ConfirmSelection fs ts) v = create_model_button_visible v"
| "enabled CreateModel v = create_model_button_visible v"

fun fire :: "event \<Rightarrow> viewer \<Rightarrow> error + viewer" where
  "fire Start v = delete_welcome v"
| "fire (ClickLoad e p yes) v = Inr (open_file_dialog e p yes v)"
| "fire (ClickChooseAnother e p yes) v = Inr (clear_table_and_choose_file e p yes v)"
| "fire ClickNext v = next_slot v"
| "fire ClickReturn v = back_slot v"
| "fire (SelectOption i) v = Inr (setCurrentIndex i v)"
| "fire (ClickApply val ok) v = Inr (confirm_preprocessing val ok v)"
| "fire (ConfirmSelection fs ts) v = Inr (confirm_selection fs ts v)"
| "fire CreateModel v = Inr (show_results v)"

inductive reachable :: "viewer \<Rightarrow> bool" where
  start: "reachable init"
| step: "reachable v \<Longrightarrow> enabled ev v \<Longrightarrow> fire ev v = Inr v' \<Longrightarrow> reachable v'"

text \<open>A session as a list of events; \<open>None\<close> when an event is not available or its
  slot raises.\<close>

fun run :: "event list \<Rightarrow> viewer \<Rightarrow> viewer option" where
  "run [] v = Some v"
| "run (ev # evs) v =
     (if enabled ev v
      then (case fire ev v of Inl e \<Rightarrow> None | Inr v' \<Rightarrow> run evs v')
      else None)"

text \<open>A file with one missing value, found at every path.\<close>

definition gaps :: dataframe where
  "gaps = \<lparr>nrows = 2, columns = [(''x'', NumCol [Some 1, None])]\<rparr>"

definition gaps_everywhere :: env where
  "gaps_everywhere =
     \<lparr>path_exists = (\<lambda>p. True),
      read_csv = (\<lambda>p. Inr gaps),
      read_excel_file = (\<lambda>p. Inl (OtherError ''BadZipFile'')),
      read_sqlite = (\<lambda>p. Inl (OtherError ''DatabaseError''))\<rparr>"

text \<open>
  What holds in every state the user can reach: the step is 1, 2 or 3; step 2 is only
  entered with missing values detected, and then \<open>nan_data\<close> exists; the two buttons
  that load a file are shown at step 1 only; and at step 2 the Next button is enabled
  only after \<open>confirm_preprocessing\<close> has completed at some time (\<open>nan_solved\<close>).
\<close>

definition wizard_inv :: "viewer \<Rightarrow> bool" where
  "wizard_inv v =
     (1 \<le> move v \<and> move v \<le> 3 \<and>
      (move v = 2 \<longrightarrow> empty_values v) \<and>
      (empty_values v \<longrightarrow> nan_data v \<noteq> None) \<and>
      (load_button_visible v \<or> back_button_visible v \<longrightarrow> move v = 1) \<and>
      (move v = 2 \<and> next_button_enabled v \<longrightarrow> nan_solved v))"

text \<open>A table with a missing number and a missing category, and a viewer holding it.\<close>

definition mixed :: dataframe where
  "mixed =
     \<lparr>nrows = 3,
      columns = [(''x'', NumCol [Some 1, None, Some 4]),
                 (''c'', ObjCol [PyStr ''red'', PyStr ''green'', PyNone])]\<rparr>"

definition holding :: "dataframe \<Rightarrow> viewer" where
  "holding d = init\<lparr>df := Some d\<rparr>"

section \<open>Regression Maker: \<open>model_saver.py\<close>, \<open>model_loader.py\<close>\<close>

text \<open>
  The dictionary that \<open>save_model\<close> writes, one field per key; \<open>ModelSaver\<close> keeps
  the same eight values as attributes, so the same record stands for the object.  A
  figure is known by the points it plots.
\<close>

datatype figure = Figure "rat option list" "rat list"

record model_data =
  md_model :: linear_model
  md_formula :: string
  md_r_squared :: rat
  md_mse :: rat
  md_input_columns :: "string list"
  md_output_column :: col_arg
  md_description :: string
  md_graph :: "figure option"

text \<open>
  The disk as joblib sees it: a file holds an object written by \<open>joblib.dump\<close>
  (which \<open>joblib.load\<close> gives back as it was), or something that \<open>joblib.load\<close>
  rejects; \<open>joblib.dump\<close> raises on a path that cannot be written.
\<close>

datatype file_content = Dumped model_data | Unreadable

record disk =
  files :: "string \<rightharpoonup> file_content"
  writable :: "string \<Rightarrow> bool"

text \<open>Both methods catch every exception and report it in a dialog; \<open>save_model\<close>
  returns nothing, \<open>load_model\<close> returns the dictionary or \<open>None\<close>.\<close>

definition save_model :: "model_data \<Rightarrow> string \<Rightarrow> disk \<Rightarrow> disk" where
  "save_model self file_path dk =
     (let description = (if strip (md_description self) \<noteq> []
                         then strip (md_description self)
                         else ''No description provided.'');
          data = self\<lparr>md_description := description\<rparr>
      in if writable dk file_path
         then dk\<lparr>files := (files dk)(file_path \<mapsto> Dumped data)\<rparr>
         else dk)"

definition load_model :: "string \<Rightarrow> disk \<Rightarrow> model_data option" where
  "load_model file_path dk =
     (case files dk file_path of
        Some (Dumped data) \<Rightarrow> Some data
      | _ \<Rightarrow> None)"

text \<open>A concrete artifact and an empty disk where every path can be written.\<close>

definition line_artifact :: model_data where
  "line_artifact =
     \<lparr>md_model = \<lparr>intercept = Finite 0, coef = [Finite 2]\<rparr>, md_formula = ''y = 0.00 + (2.00) * x'',
      md_r_squared = 1, md_mse = 0, md_input_columns = [''x''],
      md_output_column = ColName ''y'', md_description = ''  '', md_graph = None\<rparr>"

definition blank_disk :: disk where
  "blank_disk = \<lparr>files = Map.empty, writable = (\<lambda>p. True)\<rparr>"

section \<open>Properties of EmotionAnalyser\<close>

lemma lit_Some_iff: "lit p s = Some r \<longleftrightarrow> s = p @ r"
  by (induction p s rule: lit.induct) auto

lemma lit_None_iff: "lit p s = None \<longleftrightarrow> (\<forall>r. s \<noteq> p @ r)"
  by (induction p s rule: lit.induct) auto

lemma star_greedy_None_iff:
  "star_greedy p k s = None \<longleftrightarrow> (\<forall>ws rest. s = ws @ rest \<and> list_all p ws \<longrightarrow> k rest = None)"
proof (induction s)
  case Nil
  then show ?case by simp
next
  case (Cons c cs)
  show ?case
  proof (cases "p c")
    case True
    have "star_greedy p k (c # cs) = None \<longleftrightarrow> star_greedy p k cs = None \<and> k (c # cs) = None"
      using True by (simp split: option.splits)
    also have "\<dots> \<longleftrightarrow> (\<forall>ws rest. c # cs = ws @ rest \<and> list_all p ws \<longrightarrow> k rest = None)"
      (is "?L \<longleftrightarrow> ?R")
    proof
      assume L: ?L
      show ?R
      proof (intro allI impI)
        fix ws rest assume a: "c # cs = ws @ rest \<and> list_all p ws"
        show "k rest = None"
        proof (cases ws)
          case Nil
          with a L show ?thesis by simp
        next
          case (Cons w ws')
          with a have "cs = ws' @ rest" "list_all p ws'" by simp_all
          with L Cons.IH show ?thesis by blast
        qed
      qed
    next
      assume R: ?R
      have "k (c # cs) = None" using R [rule_format, of "[]" "c # cs"] by simp
      moreover have "k rest = None" if "cs = ws @ rest" "list_all p ws" for ws rest
        using R [rule_format, of "c # ws" rest] that True by simp
      ultimately show ?L using Cons.IH by blast
    qed
    finally show ?thesis .
  next
    case False
    have "k rest = None" if "k (c # cs) = None" "c # cs = ws @ rest" "list_all p ws" for ws rest
      using that False by (cases ws) auto
    moreover have "k (c # cs) = None"
      if "\<forall>ws rest. c # cs = ws @ rest \<and> list_all p ws \<longrightarrow> k rest = None"
      using that [rule_format, of "[]" "c # cs"] by simp
    ultimately show ?thesis using False by auto
  qed
qed

lemma plus_lazy_None_iff:
  "plus_lazy p k acc s = None \<longleftrightarrow>
     (\<forall>g rest. s = g @ rest \<and> g \<noteq> [] \<and> list_all p g \<longrightarrow> k (acc @ g) rest = None)"
proof (induction s arbitrary: acc)
  case Nil
  then show ?case by simp
next
  case (Cons c cs)
  show ?case
  proof (cases "p c")
    case True
    have "plus_lazy p k acc (c # cs) = None \<longleftrightarrow>
            k (acc @ [c]) cs = None \<and> plus_lazy p k (acc @ [c]) cs = None"
      using True by (simp split: option.splits)
    also have "\<dots> \<longleftrightarrow>
        (\<forall>g rest. c # cs = g @ rest \<and> g \<noteq> [] \<and> list_all p g \<longrightarrow> k (acc @ g) rest = None)"
      (is "?L \<longleftrightarrow> ?R")
    proof
      assume L: ?L
      show ?R
      proof (intro allI impI)
        fix g rest assume a: "c # cs = g @ rest \<and> g \<noteq> [] \<and> list_all p g"
        then obtain g' where g: "g = c # g'" "cs = g' @ rest" "list_all p g'"
          by (cases g) auto
        show "k (acc @ g) rest = None"
        proof (cases "g' = []")
          case True
          with g L show ?thesis by simp
        next
          case False
          from L have "plus_lazy p k (acc @ [c]) cs = None" by simp
          then have "k ((acc @ [c]) @ g') rest = None"
            unfolding Cons.IH using g False by blast
          then show ?thesis using g by simp
        qed
      qed
    next
      assume R: ?R
      have "k (acc @ [c]) cs = None" using R [rule_format, of "[c]" cs] True by simp
      moreover have "k ((acc @ [c]) @ g) rest = None"
        if "cs = g @ rest" "g \<noteq> []" "list_all p g" for g rest
        using R [rule_format, of "c # g" rest] that True by simp
      then have "plus_lazy p k (acc @ [c]) cs = None"
        unfolding Cons.IH by blast
      ultimately show ?L by simp
    qed
    finally show ?thesis .
  next
    case False
    have "\<not> (c # cs = g @ rest \<and> g \<noteq> [] \<and> list_all p g)" for g rest
      using False by (cases g) auto
    then show ?thesis using False by auto
  qed
qed

lemma search_None_iff:
  "search m s = None \<longleftrightarrow> (\<forall>pre rest. s = pre @ rest \<longrightarrow> m rest = None)"
proof (induction s)
  case Nil
  then show ?case by simp
next
  case (Cons c cs)
  have "search m (c # cs) = None \<longleftrightarrow> m (c # cs) = None \<and> search m cs = None"
    by (simp split: option.splits)
  also have "\<dots> \<longleftrightarrow> (\<forall>pre rest. c # cs = pre @ rest \<longrightarrow> m rest = None)"
    (is "?L \<longleftrightarrow> ?R")
  proof
    assume L: ?L
    show ?R
    proof (intro allI impI)
      fix pre rest assume a: "c # cs = pre @ rest"
      show "m rest = None"
      proof (cases pre)
        case Nil
        with a L show ?thesis by simp
      next
        case (Cons x pre')
        with a have "cs = pre' @ rest" by simp
        with L Cons.IH show ?thesis by blast
      qed
    qed
  next
    assume R: ?R
    have "m (c # cs) = None" using R [rule_format, of "[]" "c # cs"] by simp
    moreover have "m rest = None" if "cs = pre @ rest" for pre rest
      using R [rule_format, of "c # pre" rest] that by simp
    ultimately show ?L using Cons.IH by blast
  qed
  finally show ?case .
qed

lemma lit_case_None_iff:
  "(case lit p rest of None \<Rightarrow> None | Some x \<Rightarrow> Some (g :: 'b)) = None
     \<longleftrightarrow> (\<forall>post. rest \<noteq> p @ post)"
proof (cases "lit p rest")
  case None
  then show ?thesis using lit_None_iff [of p rest] by simp
next
  case (Some r)
  then show ?thesis using lit_Some_iff [of p rest r] by auto
qed

lemma match_frase_None_iff:
  "match_frase s = None \<longleftrightarrow>
     \<not> (\<exists>ws g post. s = ''Frase:'' @ ws @ g @ ''. Clasifica'' @ post \<and>
           list_all is_space ws \<and> g \<noteq> [] \<and> list_all is_dot g)"
proof (cases "lit ''Frase:'' s")
  case None
  then have "\<forall>r. s \<noteq> ''Frase:'' @ r" unfolding lit_None_iff by blast
  then have "\<not> (\<exists>ws g post. s = ''Frase:'' @ ws @ g @ ''. Clasifica'' @ post \<and>
           list_all is_space ws \<and> g \<noteq> [] \<and> list_all is_dot g)" by blast
  then show ?thesis using None by (simp add: match_frase_def)
next
  case (Some r)
  then have s: "s = ''Frase:'' @ r" unfolding lit_Some_iff by blast
  note k = lit_case_None_iff
  have "match_frase s = None \<longleftrightarrow>
      (\<forall>ws rest. r = ws @ rest \<and> list_all is_space ws \<longrightarrow>
         (\<forall>g rest'. rest = g @ rest' \<and> g \<noteq> [] \<and> list_all is_dot g \<longrightarrow>
            (\<forall>post. rest' \<noteq> ''. Clasifica'' @ post)))"
    using Some by (simp add: match_frase_def star_greedy_None_iff plus_lazy_None_iff k del: lit.simps)
  also have "\<dots> \<longleftrightarrow> \<not> (\<exists>ws g post. r = ws @ g @ ''. Clasifica'' @ post \<and>
           list_all is_space ws \<and> g \<noteq> [] \<and> list_all is_dot g)"
    by blast
  finally show ?thesis unfolding s by simp
qed


lemma star_greedy_Some:
  "star_greedy p k s = Some r \<Longrightarrow> \<exists>rest. k rest = Some r"
  by (induction s) (auto split: if_splits option.splits)

lemma search_Some: "search m s = Some r \<Longrightarrow> \<exists>rest. m rest = Some r"
  by (induction s) (auto split: option.splits)

lemma match_label_None_iff:
  "match_label s = None \<longleftrightarrow>
     \<not> (\<exists>ws d ws' post. s = ''[/INST]'' @ ws @ [d] @ ws' @ ''</s>'' @ post \<and>
           list_all is_space ws \<and> is_digit d \<and> list_all is_space ws')"
proof (cases "lit ''[/INST]'' s")
  case None
  then have "\<forall>r. s \<noteq> ''[/INST]'' @ r" unfolding lit_None_iff by blast
  then have "\<not> (\<exists>ws d ws' post. s = ''[/INST]'' @ ws @ [d] @ ws' @ ''</s>'' @ post \<and>
           list_all is_space ws \<and> is_digit d \<and> list_all is_space ws')" by blast
  then show ?thesis using None by (simp add: match_label_def)
next
  case (Some r)
  then have s: "s = ''[/INST]'' @ r" unfolding lit_Some_iff by blast
  let ?k2 = "\<lambda>d r3. case lit ''</s>'' r3 of None \<Rightarrow> None | Some _ \<Rightarrow> Some [d]"
  let ?k1 = "\<lambda>r1. case r1 of [] \<Rightarrow> None
                 | d # r2 \<Rightarrow> if is_digit d then star_greedy is_space (?k2 d) r2 else None"
  have k1: "?k1 r1 = None \<longleftrightarrow>
        \<not> (\<exists>d ws' post. r1 = [d] @ ws' @ ''</s>'' @ post \<and> is_digit d \<and> list_all is_space ws')"
    for r1
  proof (cases r1)
    case Nil
    then show ?thesis by simp
  next
    case (Cons d r2)
    show ?thesis
    proof (cases "is_digit d")
      case True
      have "?k1 r1 = None \<longleftrightarrow>
          (\<forall>ws' rest. r2 = ws' @ rest \<and> list_all is_space ws' \<longrightarrow> (\<forall>post. rest \<noteq> ''</s>'' @ post))"
        using Cons True by (simp add: star_greedy_None_iff lit_case_None_iff del: lit.simps)
      also have "\<dots> \<longleftrightarrow> \<not> (\<exists>ws' post. r2 = ws' @ ''</s>'' @ post \<and> list_all is_space ws')"
        by blast
      finally show ?thesis using Cons True by auto
    next
      case False
      then show ?thesis using Cons by auto
    qed
  qed
  have "match_label s = None \<longleftrightarrow>
      (\<forall>ws rest. r = ws @ rest \<and> list_all is_space ws \<longrightarrow> ?k1 rest = None)"
    using Some by (simp add: match_label_def star_greedy_None_iff del: lit.simps)
  also have "\<dots> \<longleftrightarrow> \<not> (\<exists>ws d ws' post. r = ws @ [d] @ ws' @ ''</s>'' @ post \<and>
           list_all is_space ws \<and> is_digit d \<and> list_all is_space ws')"
    unfolding k1 by blast
  finally show ?thesis unfolding s by simp
qed

lemma frase_pattern_occurs_iff: "frase_pattern_occurs t \<longleftrightarrow> search match_frase t \<noteq> None"
proof -
  have "search match_frase t = None \<longleftrightarrow>
      (\<forall>pre rest. t = pre @ rest \<longrightarrow>
         \<not> (\<exists>ws g post. rest = ''Frase:'' @ ws @ g @ ''. Clasifica'' @ post \<and>
           list_all is_space ws \<and> g \<noteq> [] \<and> list_all is_dot g))"
    unfolding search_None_iff match_frase_None_iff ..
  also have "\<dots> \<longleftrightarrow> \<not> frase_pattern_occurs t"
    unfolding frase_pattern_occurs_def by blast
  finally show ?thesis by auto
qed

lemma label_pattern_occurs_iff: "label_pattern_occurs t \<longleftrightarrow> search match_label t \<noteq> None"
proof -
  have "search match_label t = None \<longleftrightarrow>
      (\<forall>pre rest. t = pre @ rest \<longrightarrow>
         \<not> (\<exists>ws d ws' post. rest = ''[/INST]'' @ ws @ [d] @ ws' @ ''</s>'' @ post \<and>
           list_all is_space ws \<and> is_digit d \<and> list_all is_space ws'))"
    unfolding search_None_iff match_label_None_iff ..
  also have "\<dots> \<longleftrightarrow> \<not> label_pattern_occurs t"
    unfolding label_pattern_occurs_def by blast
  finally show ?thesis by auto
qed


lemma match_label_Some:
  assumes "match_label s = Some g"
  shows "\<exists>d. g = [d] \<and> is_digit d"
proof -
  let ?k2 = "\<lambda>d r3. case lit ''</s>'' r3 of None \<Rightarrow> None | Some _ \<Rightarrow> Some [d]"
  let ?k1 = "\<lambda>r1. case r1 of [] \<Rightarrow> None
                 | d # r2 \<Rightarrow> if is_digit d then star_greedy is_space (?k2 d) r2 else None"
  from assms obtain r where "star_greedy is_space ?k1 r = Some g"
    unfolding match_label_def by (cases "lit ''[/INST]'' s") simp_all
  then obtain rest where k1: "?k1 rest = Some g"
    using star_greedy_Some [of is_space ?k1 r g] by blast
  then obtain d r2 where d: "rest = d # r2" by (cases rest) simp_all
  with k1 have dig: "is_digit d" and "star_greedy is_space (?k2 d) r2 = Some g"
    by (simp_all split: if_splits)
  then obtain r3 where "?k2 d r3 = Some g"
    using star_greedy_Some [of is_space "?k2 d" r2 g] by blast
  then have "g = [d]" by (cases "lit ''</s>'' r3") simp_all
  with dig show ?thesis by blast
qed

lemma search_match_label_digit:
  "search match_label t = Some g \<Longrightarrow> \<exists>d. g = [d] \<and> is_digit d"
  using search_Some [of match_label t g] match_label_Some by blast

lemma py_int_digit: "is_digit d \<Longrightarrow> py_int [d] = Inr (digit_val d)"
  by (simp add: py_int_def)

lemma digit_val_range: "is_digit d \<Longrightarrow> 0 \<le> digit_val d \<and> digit_val d \<le> 9"
  by (auto simp: is_digit_def digit_val_def Let_def)

lemma label2emotion_None: "l < 0 \<or> 6 < l \<Longrightarrow> label2emotion l = None"
  by (auto simp: label2emotion_def)

lemma clean_frase:
  assumes "clean t = Inr r"
  shows "frase r = (case search match_frase t of Some g \<Rightarrow> strip g | None \<Rightarrow> [])"
proof (cases "search match_label t")
  case None
  with assms show ?thesis by (simp add: clean_def Let_def) auto
next
  case (Some g)
  with assms show ?thesis
    by (cases "py_int g") (auto simp add: clean_def Let_def)
qed

lemma clean_label_default:
  assumes "clean t = Inr r" and "search match_label t = None"
  shows "label r = - 1"
  using assms by (simp add: clean_def Let_def) auto

lemma clean_total: "\<exists>r. clean t = Inr r"
proof (cases "search match_label t")
  case None
  then show ?thesis by (simp add: clean_def Let_def)
next
  case (Some g)
  then obtain d where "g = [d]" "is_digit d" using search_match_label_digit by blast
  then show ?thesis using Some by (simp add: clean_def Let_def py_int_digit)
qed

text \<open>
  Claim C10.  \<open>clean\<close> returns on every text (the only call that could raise,
  \<open>int\<close> on group 1, always gets one decimal digit).  When the text holds no
  occurrence of the pattern \<open>Frase:\s*(.+?)\. Clasifica\<close> the result has
  \<open>frase = ""\<close>; when it holds no occurrence of \<open>\[/INST\]\s*(\d)\s*</s>\<close> the
  result has \<open>label = -1\<close>; and \<open>add_emotion\<close> maps every label outside
  \<open>0..6\<close> to \<open>"desconocido"\<close>.
\<close>

theorem clean_total_with_defaults:
  "(\<exists>r. clean t = Inr r) \<and>
   (\<not> frase_pattern_occurs t \<longrightarrow> (\<forall>r. clean t = Inr r \<longrightarrow> frase r = [])) \<and>
   (\<not> label_pattern_occurs t \<longrightarrow> (\<forall>r. clean t = Inr r \<longrightarrow> label r = - 1)) \<and>
   (l < 0 \<or> 6 < l \<longrightarrow> emocion (add_emotion \<lparr>frase = f, label = l\<rparr>) = ''desconocido'')"
proof (intro conjI impI allI)
  show "\<exists>r. clean t = Inr r" by (rule clean_total)
next
  fix r assume "\<not> frase_pattern_occurs t" "clean t = Inr r"
  then show "frase r = []"
    using clean_frase [of t r] by (simp add: frase_pattern_occurs_iff)
next
  fix r assume "\<not> label_pattern_occurs t" "clean t = Inr r"
  then show "label r = - 1"
    using clean_label_default [of t r] by (simp add: label_pattern_occurs_iff)
next
  assume "l < 0 \<or> 6 < l"
  then have "label2emotion l = None" by (rule label2emotion_None)
  then show "emocion (add_emotion \<lparr>frase = f, label = l\<rparr>) = ''desconocido''"
    by (simp add: add_emotion_def)
qed

theorem clean_total_with_defaults_witness:
  "\<not> frase_pattern_occurs ''hola'' \<and> \<not> label_pattern_occurs ''hola'' \<and>
   clean ''hola'' = Inr \<lparr>frase = [], label = - 1\<rparr> \<and>
   emocion (add_emotion \<lparr>frase = [], label = 7\<rparr>) = ''desconocido''"
proof -
  have f: "search match_frase ''hola'' = None" by code_simp
  have l: "search match_label ''hola'' = None" by code_simp
  have nf: "\<not> frase_pattern_occurs ''hola''" using f by (simp only: frase_pattern_occurs_iff simp_thms)
  have nl: "\<not> label_pattern_occurs ''hola''" using l by (simp only: label_pattern_occurs_iff simp_thms)
  note main = clean_total_with_defaults [of "''hola''" 7 "[]"]
  from main obtain r where r: "clean ''hola'' = Inr r" by blast
  from main nf r have "frase r = []" by blast
  moreover from main nl r have "label r = - 1" by blast
  ultimately have "r = \<lparr>frase = [], label = - 1\<rparr>" by (cases r) simp
  moreover from main have "emocion (add_emotion \<lparr>frase = [], label = 7\<rparr>) = ''desconocido''"
    by simp
  ultimately show ?thesis using nf nl r by simp
qed

section \<open>Properties of \<open>import_data\<close>\<close>

lemma ext_db: "lower (snd (splitext ''data.db'')) = ''.db''"
  by code_simp

lemma import_db: "import_data db_without_table ''data.db'' = Inl (OtherError ''DatabaseError'')"
  by (simp add: import_data_def db_without_table_def ext_db Let_def)

text \<open>
  Claim C2 does not hold for a read error of the SQLite reader.  The path exists and
  its extension is supported, yet \<open>import_data\<close> neither returns a table nor raises
  the format error that the claim and the docstring of the function promise: the
  \<open>try\<close> block spans the three readers, the \<open>except\<close> clause names only
  \<open>EmptyDataError\<close> and \<open>ParserError\<close>, and the \<open>DatabaseError\<close> of the reader
  leaves the function as it is.
\<close>

theorem reader_error_escapes_import_data:
  "path_exists db_without_table ''data.db'' \<and>
   supported_ext (lower (snd (splitext ''data.db''))) \<and>
   import_data db_without_table ''data.db'' = Inl (OtherError ''DatabaseError'')"
proof -
  have "path_exists db_without_table ''data.db''" by (simp add: db_without_table_def)
  moreover have "supported_ext (lower (snd (splitext ''data.db'')))"
    by (simp only: ext_db) (simp add: supported_ext_def)
  ultimately show ?thesis using import_db by simp
qed

text \<open>So the claim, in the words of the specification, is false there.\<close>

lemma import_spec_fails: "\<not> import_spec db_without_table ''data.db''"
  by (simp add: import_spec_def import_db)

text \<open>The paths on which the function does what the claim says: a missing file, an
  unsupported extension, a reader that returns, and the two wrapped exceptions.\<close>

lemma import_data_agrees:
  "(\<not> path_exists e p \<longrightarrow> import_data e p = Inl FileNotFoundError) \<and>
   (path_exists e p \<and> \<not> supported_ext (lower (snd (splitext p))) \<longrightarrow>
      import_data e p = Inl ValueError) \<and>
   (path_exists e p \<and> supported_ext (lower (snd (splitext p))) \<longrightarrow>
      (\<forall>t. reader_for e (lower (snd (splitext p))) p = Inr t \<longrightarrow> import_data e p = Inr t) \<and>
      (reader_for e (lower (snd (splitext p))) p = Inl EmptyDataError \<or>
       reader_for e (lower (snd (splitext p))) p = Inl ParserError \<longrightarrow>
         import_data e p = Inl ValueError))"
proof (intro conjI impI allI)
  assume "\<not> path_exists e p"
  then show "import_data e p = Inl FileNotFoundError" by (simp add: import_data_def)
next
  assume "path_exists e p \<and> \<not> supported_ext (lower (snd (splitext p)))"
  then show "import_data e p = Inl ValueError"
    by (simp add: import_data_def supported_ext_def Let_def)
next
  let ?x = "lower (snd (splitext p))"
  let ?r = "reader_for e ?x p"
  assume a: "path_exists e p \<and> supported_ext ?x"
  have r0: "(if ?x = ''.csv'' then read_csv e p
             else if ?x \<in> set [''.xlsx'', ''.xls''] then read_excel_file e p
             else if ?x \<in> set [''.sqlite'', ''.db''] then read_sqlite e p
             else Inl ValueError) = ?r"
    using a by (auto simp add: supported_ext_def reader_for_def)
  have r: "import_data e p =
      (case ?r of Inl EmptyDataError \<Rightarrow> Inl ValueError | Inl ParserError \<Rightarrow> Inl ValueError | _ \<Rightarrow> ?r)"
    unfolding import_data_def Let_def r0 using a by simp
  {
    fix t assume "?r = Inr t"
    then show "import_data e p = Inr t" unfolding r by simp
  }
  {
    assume "?r = Inl EmptyDataError \<or> ?r = Inl ParserError"
    then show "import_data e p = Inl ValueError" unfolding r by auto
  }
qed

section \<open>Properties of the formula of \<open>linear_regression\<close>\<close>

lemma round_half_even_near: "\<bar>of_int (round_half_even q) - q\<bar> \<le> 1 / 2"
proof -
  define f where "f = \<lfloor>q\<rfloor>"
  define d where "d = q - of_int f"
  have fl: "of_int f \<le> q" "q < of_int f + 1" unfolding f_def by linarith+
  have r: "round_half_even q = (if d < 1 / 2 then f else if d > 1 / 2 then f + 1
                                else if even f then f else f + 1)"
    unfolding round_half_even_def Let_def f_def d_def by simp
  consider "d < 1 / 2" | "d > 1 / 2" | "d = 1 / 2" by linarith
  then show ?thesis
  proof cases
    case 1
    then have "round_half_even q = f" using r by simp
    then show ?thesis using 1 fl unfolding d_def by simp
  next
    case 2
    then have "round_half_even q = f + 1" using r by simp
    then show ?thesis using 2 fl unfolding d_def by simp
  next
    case 3
    then have "round_half_even q = f \<or> round_half_even q = f + 1" using r by simp
    then show ?thesis using 3 unfolding d_def by auto
  qed
qed

lemma add_terms_eq:
  "length coefs \<le> length names \<Longrightarrow>
   add_terms acc coefs names =
     Inr (acc @ concat (map (\<lambda>(c, n). '' + ('' @ fmt2 c @ '') * '' @ n) (zip coefs names)))"
proof (induction acc coefs names rule: add_terms.induct)
  case (1 formula names)
  then show ?case by simp
next
  case (2 formula coef coefs)
  then show ?case by simp
next
  case (3 formula coef coefs name names)
  then show ?case by simp
qed

lemma add_terms_short: "length names < length coefs \<Longrightarrow> add_terms acc coefs names = Inl IndexError"
  by (induction acc coefs names rule: add_terms.induct) auto

text \<open>The negative zero keeps its sign, as in the program's output for a constant
  target.\<close>

lemma negative_zero_formula:
  "build_formula (ColName ''y'') (Finite 5) [NegZero] [''x''] = Inr ''y = 5.00 + (-0.00) * x''"
  by code_simp

lemma build_formula_length:
  assumes "build_formula out b coefs names = Inr f"
  shows "length coefs \<le> length names"
proof (rule ccontr)
  assume "\<not> length coefs \<le> length names"
  then have "length names < length coefs" by simp
  then have "build_formula out b coefs names = Inl IndexError"
    by (simp add: build_formula_def add_terms_short)
  with assms show False by simp
qed

lemma build_formula_Inr:
  assumes "build_formula out b coefs names = Inr f"
  shows "f = str_of out @ '' = '' @ fmt2 b @
          concat (map (\<lambda>(c, n). '' + ('' @ fmt2 c @ '') * '' @ n) (zip coefs names))"
proof (cases "length coefs \<le> length names")
  case True
  then show ?thesis using assms by (simp add: build_formula_def add_terms_eq)
next
  case False
  then have "length names < length coefs" by simp
  then have "build_formula out b coefs names = Inl IndexError"
    by (simp add: build_formula_def add_terms_short)
  with assms show ?thesis by simp
qed

lemma linear_regression_Inr_formula:
  assumes "snd (linear_regression sk g d ins outs) = Inr r"
  shows "build_formula outs (intercept (res_model r)) (coef (res_model r)) ins = Inr (res_formula r)"
  using assms unfolding linear_regression_def Let_def
  by (auto split: sum.splits prod.splits)

lemma toy_run:
  "snd (linear_regression toy_sklearn 0 colours [''x''] (ColName ''y'')) =
     Inr \<lparr>res_formula = ''y = 0.00 + (2.00) * x'', res_mse = 0, res_r2 = 1,
          res_x_test = \<lparr>nrows = 3, columns = [(''x'', NumCol [Some 1, Some 2, Some 3])]\<rparr>,
          res_y_test = [Some 2, Some 4, Some 6], res_predictions = [2, 4, 6],
          res_model = \<lparr>intercept = Finite 0, coef = [Finite 2]\<rparr>\<rparr>"
  by code_simp

lemma toy_run_data:
  "fst (linear_regression toy_sklearn 0 colours [''x''] (ColName ''y'')) =
     \<lparr>nrows = 3,
      columns = [(''x'', NumCol [Some 1, Some 2, Some 3]),
                 (''colour'', NumCol [Some 2, Some 1, Some 0]),
                 (''y'', NumCol [Some 2, Some 4, Some 6])]\<rparr>"
  by code_simp

text \<open>
  Claim C8 as the specification states it fails on a concrete fit: the code puts a
  blank on each side of the \<open>*\<close>, so the returned string is
  \<open>y = 0.00 + (2.00) * x\<close> and not \<open>y = 0.00 + (2.00)*x\<close>.
\<close>

theorem formula_spec_counterexample:
  "case snd (linear_regression toy_sklearn 0 colours [''x''] (ColName ''y'')) of
     Inl e \<Rightarrow> False
   | Inr r \<Rightarrow> res_formula r \<noteq> spec_formula ''y'' (intercept (res_model r)) (coef (res_model r)) [''x'']"
  by code_simp

lemma fmt2_rounds:
  "\<exists>n. fmt2 (Finite x) = (if x < 0 then ''-'' else '''') @ digits (n div 100) @ ''.'' @
                  [digit_char (n mod 100 div 10), digit_char (n mod 10)] \<and>
       \<bar>of_nat n / 100 - \<bar>x\<bar>\<bar> \<le> 1 / 200"
proof -
  let ?r = "round_half_even (\<bar>x\<bar> * 100)"
  have near: "\<bar>of_int ?r - \<bar>x\<bar> * 100\<bar> \<le> 1 / 2" by (rule round_half_even_near)
  then have "of_int ?r \<ge> \<bar>x\<bar> * 100 - 1 / 2" by linarith
  then have "(of_int ?r :: rat) > - 1" using abs_ge_zero [of x] by linarith
  then have nonneg: "?r \<ge> 0" by linarith
  then have "(of_nat (nat ?r) :: rat) = of_int ?r" by simp
  then have "\<bar>of_nat (nat ?r) / 100 - \<bar>x\<bar>\<bar> \<le> 1 / 200"
    using near by (simp add: abs_if field_simps split: if_splits)
  then show ?thesis unfolding fmt2.simps fmt2_finite_def Let_def by blast
qed

text \<open>
  Claim C8, amended.  Whenever \<open>linear_regression\<close>, called with the name \<open>out\<close> of
  the output column, returns, its formula is \<open>out\<close>, then \<open> = \<close> and the intercept,
  then for the i-th coefficient \<open> + (c_i) * col_i\<close> with a blank on each side of the
  \<open>*\<close>, one term per coefficient.  The numbers are printed with \<open>.2f\<close>: a finite
  value as the decimal with two places nearest to its absolute value, within half
  a hundredth, with the sign in front, and the negative zero as \<open>-0.00\<close>.
\<close>

theorem linear_regression_formula:
  assumes "snd (linear_regression sk g d ins (ColName out)) = Inr r"
  shows "res_formula r =
           out @ '' = '' @ fmt2 (intercept (res_model r)) @
           concat (map (\<lambda>(c, n). '' + ('' @ fmt2 c @ '') * '' @ n) (zip (coef (res_model r)) ins)) \<and>
         length (coef (res_model r)) \<le> length ins \<and>
         (\<forall>x. \<exists>n. fmt2 (Finite x) =
                     (if x < 0 then ''-'' else '''') @ digits (n div 100) @ ''.'' @
                     [digit_char (n mod 100 div 10), digit_char (n mod 10)] \<and>
                   \<bar>of_nat n / 100 - \<bar>x\<bar>\<bar> \<le> 1 / 200) \<and>
         fmt2 NegZero = ''-0.00''"
proof -
  note b = linear_regression_Inr_formula [OF assms]
  have "res_formula r =
           str_of (ColName out) @ '' = '' @ fmt2 (intercept (res_model r)) @
           concat (map (\<lambda>(c, n). '' + ('' @ fmt2 c @ '') * '' @ n) (zip (coef (res_model r)) ins))"
    using build_formula_Inr [OF b] .
  moreover have "length (coef (res_model r)) \<le> length ins"
    using build_formula_length [OF b] .
  ultimately show ?thesis using fmt2_rounds by simp
qed

theorem linear_regression_formula_witness:
  "snd (linear_regression toy_sklearn 0 colours [''x''] (ColName ''y'')) =
     Inr \<lparr>res_formula = ''y = 0.00 + (2.00) * x'', res_mse = 0, res_r2 = 1,
          res_x_test = \<lparr>nrows = 3, columns = [(''x'', NumCol [Some 1, Some 2, Some 3])]\<rparr>,
          res_y_test = [Some 2, Some 4, Some 6], res_predictions = [2, 4, 6],
          res_model = \<lparr>intercept = Finite 0, coef = [Finite 2]\<rparr>\<rparr> \<and>
   ''y = 0.00 + (2.00) * x'' =
     ''y'' @ '' = '' @ fmt2 (Finite 0) @ '' + ('' @ fmt2 (Finite 2) @ '') * '' @ ''x''"
proof -
  note run = toy_run
  from linear_regression_formula [OF run]
  have "''y = 0.00 + (2.00) * x'' =
     ''y'' @ '' = '' @ fmt2 (Finite 0) @ '' + ('' @ fmt2 (Finite 2) @ '') * '' @ ''x''"
    by simp
  with run show ?thesis by simp
qed

section \<open>Properties of the encoding loop of \<open>linear_regression\<close>\<close>

lemma map_of_distinct_mem:
  "distinct (map fst cs) \<Longrightarrow> (n, c) \<in> set cs \<Longrightarrow> map_of cs n = Some c"
  by simp

lemma encode_step_columns:
  assumes "distinct (map fst (columns d))" and "(n, ObjCol os) \<in> set (columns d)"
  shows "columns (encode_step n d) =
           map (\<lambda>(m, c). if m = n then (m, encode_column c) else (m, c)) (columns d)"
proof -
  have m: "map_of (columns d) n = Some (ObjCol os)"
    using assms by simp
  have "encode_column c = encoded os" if "(n, c) \<in> set (columns d)" for c
    using that assms map_of_distinct_mem [of "columns d" n c] m by auto
  then have "map (\<lambda>(m, old). if m = n then (m, encoded os) else (m, old)) (columns d) =
        map (\<lambda>(m, c). if m = n then (m, encode_column c) else (m, c)) (columns d)"
    by (intro map_cong) (auto simp del: encode_column.simps)
  then show ?thesis using m by (simp add: encode_step_def set_column_def)
qed

lemma fold_encode_step_columns:
  "distinct (map fst (columns d)) \<Longrightarrow> distinct ns \<Longrightarrow>
   (\<forall>n \<in> set ns. \<exists>os. (n, ObjCol os) \<in> set (columns d)) \<Longrightarrow>
   columns (fold encode_step ns d) =
     map (\<lambda>(m, c). if m \<in> set ns then (m, encode_column c) else (m, c)) (columns d)"
proof (induction ns arbitrary: d)
  case Nil
  then show ?case by simp
next
  case (Cons n ns)
  from Cons.prems obtain os where os: "(n, ObjCol os) \<in> set (columns d)" by auto
  let ?d1 = "encode_step n d"
  have c1: "columns ?d1 = map (\<lambda>(m, c). if m = n then (m, encode_column c) else (m, c)) (columns d)"
    using encode_step_columns [OF Cons.prems(1) os] .
  have names: "map fst (columns ?d1) = map fst (columns d)"
    unfolding c1 by (induction "columns d") (auto split: prod.splits)
  have d1: "distinct (map fst (columns ?d1))" using Cons.prems(1) names by simp
  have ns: "distinct ns" and nn: "n \<notin> set ns" using Cons.prems(2) by simp_all
  have obj: "\<forall>k \<in> set ns. \<exists>os. (k, ObjCol os) \<in> set (columns ?d1)"
  proof
    fix k assume k: "k \<in> set ns"
    then obtain os' where "(k, ObjCol os') \<in> set (columns d)" using Cons.prems(3) by auto
    moreover have "k \<noteq> n" using k nn by auto
    ultimately have "(k, ObjCol os') \<in> set (columns ?d1)"
      unfolding c1 by (auto simp: image_iff intro!: bexI [of _ "(k, ObjCol os')"])
    then show "\<exists>os. (k, ObjCol os) \<in> set (columns ?d1)" by blast
  qed
  have "columns (fold encode_step (n # ns) d) = columns (fold encode_step ns ?d1)" by simp
  also have "\<dots> = map (\<lambda>(m, c). if m \<in> set ns then (m, encode_column c) else (m, c)) (columns ?d1)"
    using Cons.IH [OF d1 ns obj] .
  also have "\<dots> = map (\<lambda>(m, c). if m \<in> set (n # ns) then (m, encode_column c) else (m, c)) (columns d)"
    unfolding c1 using nn by (auto simp: comp_def split: prod.splits intro!: map_cong)
  finally show ?case .
qed

lemma non_numeric_columns_set:
  "set (non_numeric_columns cs) = {n. \<exists>os. (n, ObjCol os) \<in> set cs}"
  by (induction cs rule: non_numeric_columns.induct) auto

lemma non_numeric_columns_subseq:
  "set (non_numeric_columns cs) \<subseteq> set (map fst cs)"
  by (induction cs rule: non_numeric_columns.induct) auto

lemma non_numeric_columns_distinct:
  "distinct (map fst cs) \<Longrightarrow> distinct (non_numeric_columns cs)"
  using non_numeric_columns_subseq
  by (induction cs rule: non_numeric_columns.induct) (auto simp: subset_iff)

lemma encode_non_numeric_columns:
  assumes "distinct (map fst (columns d))"
  shows "columns (encode_non_numeric d) = map (\<lambda>(n, c). (n, encode_column c)) (columns d)"
proof -
  let ?ns = "non_numeric_columns (columns d)"
  have "columns (encode_non_numeric d) =
      map (\<lambda>(m, c). if m \<in> set ?ns then (m, encode_column c) else (m, c)) (columns d)"
    unfolding encode_non_numeric_def
    using fold_encode_step_columns [OF assms non_numeric_columns_distinct [OF assms]]
    by (simp add: non_numeric_columns_set)
  also have "\<dots> = map (\<lambda>(n, c). (n, encode_column c)) (columns d)"
  proof (intro map_cong refl)
    fix x assume x: "x \<in> set (columns d)"
    obtain m c where mc: "x = (m, c)" by (cases x)
    show "(case x of (m, c) \<Rightarrow> if m \<in> set ?ns then (m, encode_column c) else (m, c)) =
          (case x of (n, c) \<Rightarrow> (n, encode_column c))"
    proof (cases c)
      case (NumCol xs)
      then show ?thesis using mc by simp
    next
      case (ObjCol os)
      then have "m \<in> set ?ns" using x mc by (auto simp: non_numeric_columns_set)
      then show ?thesis using mc by simp
    qed
  qed
  finally show ?thesis .
qed

lemma encode_step_nrows: "nrows (encode_step n d) = nrows d"
  by (auto simp: encode_step_def set_column_def split: option.splits column.splits)

lemma encode_non_numeric_nrows: "nrows (encode_non_numeric d) = nrows d"
proof -
  have "nrows (fold encode_step ns d) = nrows d" for ns
    by (induction ns arbitrary: d) (simp_all add: encode_step_nrows)
  then show ?thesis by (simp add: encode_non_numeric_def)
qed

lemma non_numeric_columns_encoded:
  "non_numeric_columns (map (\<lambda>(n, c). (n, encode_column c)) cs) = []"
  by (induction cs rule: non_numeric_columns.induct) (auto simp: encoded_def)

lemma encode_non_numeric_idem:
  assumes "distinct (map fst (columns d))"
  shows "encode_non_numeric (encode_non_numeric d) = encode_non_numeric d"
  by (simp add: encode_non_numeric_def [of "encode_non_numeric d"]
      encode_non_numeric_columns [OF assms] non_numeric_columns_encoded)

lemma wf_distinct: "wf_dataframe d \<Longrightarrow> distinct (map fst (columns d))"
  by (simp add: wf_dataframe_def)

lemma fst_linear_regression: "fst (linear_regression sk g d ins outs) = encode_non_numeric d"
  by (simp add: linear_regression_def Let_def)

lemma map_of_encode:
  "map_of (map (\<lambda>(n, c). (n, encode_column c)) cs) n = map_option encode_column (map_of cs n)"
  by (induction cs) auto

text \<open>
  Claim C9.  \<open>linear_regression\<close> changes the caller's table in place: on a
  well-formed table the call leaves every non-numeric column (the output column
  included, when it is one) replaced by its label encoding as floats, every numeric
  column as it was, and the row count unchanged; a table with a non-numeric column is
  therefore not the table that was passed in.  This holds whether the call returns or
  raises after the loop.
\<close>

theorem linear_regression_overwrites:
  assumes "wf_dataframe d"
  shows "nrows (fst (linear_regression sk g d ins outs)) = nrows d \<and>
         columns (fst (linear_regression sk g d ins outs)) =
           map (\<lambda>(n, c). (n, encode_column c)) (columns d) \<and>
         (\<forall>n os. (n, ObjCol os) \<in> set (columns d) \<longrightarrow>
            map_of (columns (fst (linear_regression sk g d ins outs))) n = Some (encoded os) \<and>
            encoded os \<noteq> ObjCol os \<and>
            fst (linear_regression sk g d ins outs) \<noteq> d)"
proof (intro conjI allI impI)
  note dist = wf_distinct [OF assms]
  note cols = encode_non_numeric_columns [OF dist]
  show "nrows (fst (linear_regression sk g d ins outs)) = nrows d"
    by (simp add: fst_linear_regression encode_non_numeric_nrows)
  show c: "columns (fst (linear_regression sk g d ins outs)) =
           map (\<lambda>(n, c). (n, encode_column c)) (columns d)"
    by (simp add: fst_linear_regression cols)
  fix n os assume m: "(n, ObjCol os) \<in> set (columns d)"
  then have "map_of (columns d) n = Some (ObjCol os)" using dist by simp
  then show l: "map_of (columns (fst (linear_regression sk g d ins outs))) n = Some (encoded os)"
    unfolding c map_of_encode by simp
  show ne: "encoded os \<noteq> ObjCol os" by (simp add: encoded_def)
  show "fst (linear_regression sk g d ins outs) \<noteq> d"
  proof
    assume "fst (linear_regression sk g d ins outs) = d"
    with l have "map_of (columns d) n = Some (encoded os)" by simp
    with \<open>map_of (columns d) n = Some (ObjCol os)\<close> ne show False by simp
  qed
qed

lemma wf_colours: "wf_dataframe colours"
  by (simp add: wf_dataframe_def colours_def)

lemma colours_data:
  "fst (linear_regression toy_sklearn 0 colours [''x''] (ColName ''y'')) =
     \<lparr>nrows = 3,
      columns = [(''x'', NumCol [Some 1, Some 2, Some 3]),
                 (''colour'', NumCol [Some 2, Some 1, Some 0]),
                 (''y'', NumCol [Some 2, Some 4, Some 6])]\<rparr>"
  by code_simp

theorem linear_regression_overwrites_witness:
  "wf_dataframe colours \<and>
   (''colour'', ObjCol [PyStr ''red'', PyNaN, PyStr ''blue'']) \<in> set (columns colours) \<and>
   map_of (columns (fst (linear_regression toy_sklearn 0 colours [''x''] (ColName ''y'')))) ''colour''
     = Some (NumCol [Some 2, Some 1, Some 0]) \<and>
   fst (linear_regression toy_sklearn 0 colours [''x''] (ColName ''y'')) \<noteq> colours"
proof -
  have m: "(''colour'', ObjCol [PyStr ''red'', PyNaN, PyStr ''blue'']) \<in> set (columns colours)"
    by (simp add: colours_def)
  have e: "encoded [PyStr ''red'', PyNaN, PyStr ''blue''] = NumCol [Some 2, Some 1, Some 0]"
    by code_simp
  from linear_regression_overwrites [OF wf_colours, of toy_sklearn 0 "[''x'']" "ColName ''y''"] m
  have "map_of (columns (fst (linear_regression toy_sklearn 0 colours [''x''] (ColName ''y'')))) ''colour''
          = Some (encoded [PyStr ''red'', PyNaN, PyStr ''blue''])"
    and "fst (linear_regression toy_sklearn 0 colours [''x''] (ColName ''y'')) \<noteq> colours"
    by blast+
  then show ?thesis using wf_colours m e by simp
qed

text \<open>
  Claim C7.  \<open>linear_regression\<close> passes \<open>random_state=42\<close> to the split, so with a
  library whose seeded split does not read the global generator the whole result
  (table, formula, MSE, R squared, test split, predictions, model, or the exception) is the
  same whatever the generator's state; and a second call on the table as the first
  call left it gives the same result again.
\<close>

theorem linear_regression_reproducible:
  assumes "seeded sk" and "wf_dataframe d"
  shows "linear_regression sk g d ins outs = linear_regression sk g' d ins outs \<and>
         linear_regression sk g' (fst (linear_regression sk g d ins outs)) ins outs =
           linear_regression sk g d ins outs"
proof -
  have eq: "train_test_split sk g x y (1 / 5) (Some 42) = train_test_split sk g' x y (1 / 5) (Some 42)"
    for x y
    using assms(1) unfolding seeded_def by blast
  have one: "linear_regression sk g d ins outs = linear_regression sk g' d ins outs"
    unfolding linear_regression_def Let_def eq ..
  have idem: "encode_non_numeric (encode_non_numeric d) = encode_non_numeric d"
    by (rule encode_non_numeric_idem [OF wf_distinct [OF assms(2)]])
  have "linear_regression sk g' (encode_non_numeric d) ins outs = linear_regression sk g' d ins outs"
    unfolding linear_regression_def Let_def idem ..
  then show ?thesis using one by (simp add: fst_linear_regression)
qed

lemma seeded_toy: "seeded toy_sklearn"
  by (simp add: seeded_def toy_sklearn_def)

theorem linear_regression_reproducible_witness:
  "seeded toy_sklearn \<and> wf_dataframe colours \<and>
   linear_regression toy_sklearn 0 colours [''x''] (ColName ''y'') =
     linear_regression toy_sklearn 1 colours [''x''] (ColName ''y'') \<and>
   linear_regression toy_sklearn 1
       (fst (linear_regression toy_sklearn 0 colours [''x''] (ColName ''y''))) [''x''] (ColName ''y'') =
     linear_regression toy_sklearn 0 colours [''x''] (ColName ''y'')"
  using linear_regression_reproducible [OF seeded_toy wf_colours, of 0 "[''x'']" "ColName ''y''" 1]
    seeded_toy wf_colours by blast

section \<open>Properties of the wizard\<close>

lemma drive_through_ok:
  assumes "1 \<le> move v" "move v \<le> 3" "move v = 2 \<longrightarrow> empty_values v"
    "empty_values v \<longrightarrow> nan_data v \<noteq> None"
  shows "\<exists>v'. drive_through v = Inr v' \<and> wizard_inv v' \<and> move v' = move v \<and>
              empty_values v' = empty_values v \<and> nan_data v' = nan_data v \<and>
              nan_solved v' = nan_solved v"
proof -
  consider "move v = 1" | "move v = 2" | "move v = 3" using assms(1,2) by linarith
  then show ?thesis
  proof cases
    case 1
    then show ?thesis using assms
      by (simp add: drive_through_def steps_guide_def hide_main_layout_def Let_def wizard_inv_def)
  next
    case 2
    with assms obtain b where "nan_data v = Some b" by auto
    with 2 show ?thesis using assms
      by (simp add: drive_through_def steps_guide_def hide_main_layout_def Let_def wizard_inv_def)
  next
    case 3
    then show ?thesis using assms
      by (simp add: drive_through_def steps_guide_def hide_main_layout_def Let_def wizard_inv_def)
  qed
qed

lemma next_slot_ok:
  assumes "wizard_inv v"
  shows "\<exists>v'. next_slot v = Inr v' \<and> wizard_inv v' \<and>
     move v' = (if move v < 3 then (if empty_values v then move v + 1 else move v + 2) else move v)"
proof (cases "move v < 3")
  case False
  then show ?thesis using assms by (simp add: next_slot_def)
next
  case True
  let ?v = "v\<lparr>move := (if empty_values v then move v + 1 else move v + 2)\<rparr>"
  have "1 \<le> move ?v" "move ?v \<le> 3" "move ?v = 2 \<longrightarrow> empty_values ?v"
    "empty_values ?v \<longrightarrow> nan_data ?v \<noteq> None"
    using assms True by (auto simp: wizard_inv_def)
  from drive_through_ok [OF this] show ?thesis using True by (auto simp: next_slot_def)
qed

lemma back_slot_ok:
  assumes "wizard_inv v"
  shows "\<exists>v'. back_slot v = Inr v' \<and> wizard_inv v' \<and>
     move v' = (if move v > 1 then (if empty_values v then move v - 1 else move v - 2) else move v)"
proof (cases "move v > 1")
  case False
  then show ?thesis using assms by (simp add: back_slot_def)
next
  case True
  let ?v = "v\<lparr>move := (if empty_values v then move v - 1 else move v - 2)\<rparr>"
  have "1 \<le> move ?v" "move ?v \<le> 3" "move ?v = 2 \<longrightarrow> empty_values ?v"
    "empty_values ?v \<longrightarrow> nan_data ?v \<noteq> None"
    using assms True by (auto simp: wizard_inv_def)
  from drive_through_ok [OF this] show ?thesis using True by (auto simp: back_slot_def)
qed

lemma delete_welcome_ok:
  assumes "wizard_inv v"
  shows "\<exists>v'. delete_welcome v = Inr v' \<and> wizard_inv v'"
proof -
  let ?v = "v\<lparr>welcome_visible := False\<rparr>"
  have "1 \<le> move ?v" "move ?v \<le> 3" "move ?v = 2 \<longrightarrow> empty_values ?v"
    "empty_values ?v \<longrightarrow> nan_data ?v \<noteq> None"
    using assms by (auto simp: wizard_inv_def)
  from drive_through_ok [OF this] show ?thesis by (auto simp: delete_welcome_def)
qed

lemma display_fields [simp]:
  "move (display_data_in_table v) = move v"
  "empty_values (display_data_in_table v) = empty_values v"
  "nan_data (display_data_in_table v) = nan_data v"
  "nan_solved (display_data_in_table v) = nan_solved v"
  "load_button_visible (display_data_in_table v) = False"
  "back_button_visible (display_data_in_table v) = (move v = 1)"
  "next_button_enabled (display_data_in_table v) = True"
  "df (display_data_in_table v) = df v"
  by (simp_all add: display_data_in_table_def)

lemma setCurrentIndex_inv: "wizard_inv (setCurrentIndex i v) = wizard_inv v"
  by (simp add: setCurrentIndex_def preprocessing_button_def wizard_inv_def)

lemma detect_inv:
  assumes "wizard_inv v" "move v = 1"
  shows "wizard_inv (detect_missing_values v)"
  using assms
  by (auto simp: detect_missing_values_def setCurrentIndex_def preprocessing_button_def
      wizard_inv_def split: option.splits)

lemma load_data_inv:
  assumes "wizard_inv v" "move v = 1"
  shows "wizard_inv (load_data e p v)"
proof (cases "import_data e p")
  case (Inl err)
  then show ?thesis using assms by (simp add: load_data_def)
next
  case (Inr d)
  have a: "wizard_inv (display_data_in_table (v\<lparr>df := Some d\<rparr>))"
    using assms by (simp add: wizard_inv_def)
  have b: "wizard_inv (v\<lparr>df := Some d\<rparr>)" using assms by (simp add: wizard_inv_def)
  show ?thesis using Inr detect_inv [OF a] b assms(2) by (simp add: load_data_def)
qed

lemma open_file_dialog_inv:
  assumes "wizard_inv v" "move v = 1"
  shows "wizard_inv (open_file_dialog e p yes v)"
proof -
  have "wizard_inv (v\<lparr>last_file_path := Some p\<rparr>)" "move (v\<lparr>last_file_path := Some p\<rparr>) = 1"
    using assms by (simp_all add: wizard_inv_def)
  then have "wizard_inv (load_data e p (v\<lparr>last_file_path := Some p\<rparr>))" by (rule load_data_inv)
  then show ?thesis using assms load_data_inv [OF assms] by (simp add: open_file_dialog_def)
qed

lemma strategy_fields:
  assumes "(if options_index v = 1 then Inr (remove_missing_values v)
            else if options_index v = 2 then fill_with_mean v
            else if options_index v = 3 then fill_with_median v
            else if options_index v = 4 then fill_with_constant val ok v
            else Inr v) = Inr v1"
  shows "move v1 = move v \<and> empty_values v1 = empty_values v"
  using assms
  by (auto simp: remove_missing_values_def fill_with_mean_def fill_with_median_def
      fill_with_constant_def split: if_splits option.splits sum.splits)

lemma confirm_preprocessing_inv:
  assumes "wizard_inv v"
  shows "wizard_inv (confirm_preprocessing val ok v)"
proof -
  let ?r = "(if options_index v = 1 then Inr (remove_missing_values v)
            else if options_index v = 2 then fill_with_mean v
            else if options_index v = 3 then fill_with_median v
            else if options_index v = 4 then fill_with_constant val ok v
            else Inr v)"
  show ?thesis
  proof (cases ?r)
    case (Inl e)
    then show ?thesis using assms unfolding confirm_preprocessing_def by simp
  next
    case (Inr v1)
    from strategy_fields [OF Inr] have "move v1 = move v" "empty_values v1 = empty_values v"
      by simp_all
    then show ?thesis using assms Inr unfolding confirm_preprocessing_def
      by (simp add: wizard_inv_def)
  qed
qed

lemma init_inv: "wizard_inv init"
  by (simp add: wizard_inv_def init_def)

lemma fire_inv:
  assumes "wizard_inv v" "enabled ev v" "fire ev v = Inr v'"
  shows "wizard_inv v'"
proof (cases ev)
  case Start
  then show ?thesis using assms delete_welcome_ok [OF assms(1)] by auto
next
  case (ClickLoad e p yes)
  then have "move v = 1" using assms by (simp add: wizard_inv_def)
  then show ?thesis using ClickLoad assms open_file_dialog_inv [OF assms(1)] by auto
next
  case (ClickChooseAnother e p yes)
  then have "move v = 1" using assms by (simp add: wizard_inv_def)
  then show ?thesis using ClickChooseAnother assms open_file_dialog_inv [OF assms(1)]
    by (auto simp: clear_table_and_choose_file_def)
next
  case ClickNext
  then show ?thesis using assms next_slot_ok [OF assms(1)] by auto
next
  case ClickReturn
  then show ?thesis using assms back_slot_ok [OF assms(1)] by auto
next
  case (SelectOption i)
  then show ?thesis using assms setCurrentIndex_inv by auto
next
  case (ClickApply val ok)
  then show ?thesis using assms confirm_preprocessing_inv by auto
next
  case (ConfirmSelection fs ts)
  then show ?thesis using assms by (auto simp: confirm_selection_def wizard_inv_def)
next
  case CreateModel
  then show ?thesis using assms by (auto simp: show_results_def wizard_inv_def)
qed

lemma reachable_inv: "reachable v \<Longrightarrow> wizard_inv v"
  by (induction rule: reachable.induct) (auto intro: init_inv fire_inv)

lemma run_reachable: "reachable v \<Longrightarrow> run evs v = Some v' \<Longrightarrow> reachable v'"
proof (induction evs arbitrary: v)
  case Nil
  then show ?case by simp
next
  case (Cons ev evs)
  then show ?case
    by (auto split: if_splits sum.splits intro: reachable.step)
qed

lemma clean_step_gate:
  "reachable v \<Longrightarrow> move v = 2 \<Longrightarrow> next_button_enabled v \<Longrightarrow> nan_solved v"
  using reachable_inv by (auto simp: wizard_inv_def)

text \<open>The guard \<open>move < 3\<close> alone does not bound the counter: at step 2 without
  missing values, a state no user reaches, \<open>next\<close> would give 4.\<close>

lemma unguarded_next_leaves_range:
  "map_sum id move (next_slot (init\<lparr>move := 2, nan_data := Some False\<rparr>)) = Inr 4"
  by (simp add: next_slot_def drive_through_def hide_main_layout_def init_def Let_def)

text \<open>
  Claim C1.  In every state the user can reach (by the start button, the two
  file-loading buttons, Next, Back, the combo box, Apply and the buttons of step 3,
  each only while its widget is visible and enabled) the step counter is 1, 2 or 3.
  There \<open>next\<close> returns and adds 1 when missing values were detected and 2 otherwise
  (nothing at step 3), \<open>back\<close> subtracts likewise (nothing at step 1), and both
  leave the counter within 1..3.
\<close>

theorem step_counter_in_range:
  assumes "reachable v"
  shows "1 \<le> move v \<and> move v \<le> 3 \<and> (move v = 2 \<longrightarrow> empty_values v) \<and>
         (\<exists>v'. next_slot v = Inr v' \<and>
               move v' = (if move v < 3
                          then (if empty_values v then move v + 1 else move v + 2)
                          else move v) \<and>
               1 \<le> move v' \<and> move v' \<le> 3) \<and>
         (\<exists>v'. back_slot v = Inr v' \<and>
               move v' = (if move v > 1
                          then (if empty_values v then move v - 1 else move v - 2)
                          else move v) \<and>
               1 \<le> move v' \<and> move v' \<le> 3)"
proof -
  have inv: "wizard_inv v" using assms by (rule reachable_inv)
  from next_slot_ok [OF inv] obtain n where
    n: "next_slot v = Inr n" "wizard_inv n"
       "move n = (if move v < 3 then (if empty_values v then move v + 1 else move v + 2) else move v)"
    by blast
  from back_slot_ok [OF inv] obtain b where
    b: "back_slot v = Inr b" "wizard_inv b"
       "move b = (if move v > 1 then (if empty_values v then move v - 1 else move v - 2) else move v)"
    by blast
  have "1 \<le> move n \<and> move n \<le> 3" "1 \<le> move b \<and> move b \<le> 3"
    using n(2) b(2) by (simp_all add: wizard_inv_def)
  with n b inv show ?thesis unfolding wizard_inv_def by blast
qed

theorem step_counter_in_range_witness:
  "reachable init \<and> move init = 1 \<and> map_sum id move (next_slot init) = Inr 3 \<and>
   map_sum id move (back_slot init) = Inr 1"
proof -
  have m: "move init = 1" "\<not> empty_values init" by (simp_all add: init_def)
  from step_counter_in_range [OF reachable.start] m
  obtain n b where "next_slot init = Inr n" "move n = 3" "back_slot init = Inr b" "move b = 1"
    by auto
  then show ?thesis using m reachable.start by simp
qed

text \<open>
  Claim C6 does not hold for a second file.  A file with a missing value is loaded and
  cleaned, the user goes back to step 1 and loads another file with a missing value,
  and presses Next: the wizard is at step 2 with the uncleaned table
  (\<open>nan_data\<close> is \<open>True\<close>), the Next button is enabled, and pressing it leads to
  step 3.  \<open>steps_guide\<close> disables the button from \<open>nan_data\<close>, and
  \<open>drive_through\<close> then enables it again from \<open>nan_solved\<close>, which is never
  reset.
\<close>

theorem second_file_skips_cleaning:
  "case run [Start, ClickLoad gaps_everywhere ''a.csv'' True, ClickNext, SelectOption 1,
             ClickApply 0 True, ClickReturn,
             ClickChooseAnother gaps_everywhere ''b.csv'' True, ClickNext] init of
     None \<Rightarrow> False
   | Some v \<Rightarrow> move v = 2 \<and> df v = Some gaps \<and> nan_data v = Some True \<and>
                enabled ClickNext v \<and> map_sum id move (fire ClickNext v) = Inr 3"
  by code_simp

lemma first_file_waits_for_cleaning:
  "case run [Start, ClickLoad gaps_everywhere ''a.csv'' True, ClickNext] init of
     None \<Rightarrow> False
   | Some v \<Rightarrow> move v = 2 \<and> nan_data v = Some True \<and> \<not> enabled ClickNext v"
  by code_simp

section \<open>Properties of the missing-value strategies\<close>

lemma pick_map: "pick keep (map f xs) = map f (pick keep xs)"
proof -
  have "zip (map f xs) keep = map (\<lambda>(x, b). (f x, b)) (zip xs keep)"
    by (simp add: zip_map1)
  then show ?thesis
    by (simp add: pick_def filter_map comp_def case_prod_beta)
qed

lemma pick_filter: "pick (map Q xs) xs = filter Q xs"
  unfolding pick_def by (induction xs) auto

lemma length_pick: "length xs = length keep \<Longrightarrow> length (pick keep xs) = length (filter (\<lambda>b. b) keep)"
  unfolding pick_def
proof (induction xs arbitrary: keep)
  case Nil
  then show ?case by simp
next
  case (Cons x xs)
  then obtain b bs where "keep = b # bs" by (cases keep) auto
  with Cons show ?case by auto
qed

lemma pick_nth:
  "pick keep xs = map (\<lambda>i. xs ! i) (pick keep [0..<length xs])"
proof -
  have "pick keep xs = pick keep (map (\<lambda>i. xs ! i) [0..<length xs])"
    by (simp add: map_nth)
  then show ?thesis by (simp only: pick_map)
qed

lemma col_cell_pick:
  assumes "j < length (pick keep [0..<col_len c])"
  shows "col_cell (col_pick keep c) j = col_cell c (pick keep [0..<col_len c] ! j)"
proof (cases c)
  case (NumCol xs)
  have "pick keep xs ! j = xs ! (pick keep [0..<length xs] ! j)"
    using assms NumCol by (subst pick_nth) simp
  then show ?thesis using NumCol by simp
next
  case (ObjCol os)
  have "pick keep os ! j = os ! (pick keep [0..<length os] ! j)"
    using assms ObjCol by (subst pick_nth) simp
  then show ?thesis using ObjCol by simp
qed

lemma col_len_pick:
  "col_len c = length keep \<Longrightarrow> col_len (col_pick keep c) = length (filter (\<lambda>b. b) keep)"
  by (cases c) (simp_all add: length_pick)

lemma col_isnull_cell: "i < col_len c \<Longrightarrow> col_isnull c ! i = cell_isnull (col_cell c i)"
  by (cases c) simp_all

lemma wf_col_len: "wf_dataframe d \<Longrightarrow> (n, c) \<in> set (columns d) \<Longrightarrow> col_len c = nrows d"
  by (auto simp: wf_dataframe_def list_all_iff)

lemma keep_mask_rows:
  assumes "wf_dataframe d"
  shows "keep_mask d = map (\<lambda>r. \<not> list_ex cell_isnull r) (rows d)"
proof -
  have "list_ex (\<lambda>(n, c). col_isnull c ! i) (columns d) = list_ex cell_isnull (row d i)"
    if "i < nrows d" for i
  proof -
    have "col_isnull c ! i = cell_isnull (col_cell c i)" if "(n, c) \<in> set (columns d)" for n c
      using col_isnull_cell [of i c] wf_col_len [OF assms that] \<open>i < nrows d\<close> by simp
    then have "\<forall>x \<in> set (columns d).
        (case x of (n, c) \<Rightarrow> col_isnull c ! i) = cell_isnull (case x of (n, c) \<Rightarrow> col_cell c i)"
      by (auto split: prod.splits)
    then have "(\<exists>x \<in> set (columns d). case x of (n, c) \<Rightarrow> col_isnull c ! i) =
               (\<exists>x \<in> set (columns d). cell_isnull (case x of (n, c) \<Rightarrow> col_cell c i))"
      by (intro bex_cong refl) blast
    then show ?thesis
      by (simp add: row_def list_ex_iff)
  qed
  then show ?thesis by (simp add: keep_mask_def rows_def)
qed

lemma length_keep_mask: "length (keep_mask d) = nrows d"
  by (simp add: keep_mask_def)

lemma dropna_rows:
  assumes "wf_dataframe d"
  shows "rows (dropna d) = filter (\<lambda>r. \<not> list_ex cell_isnull r) (rows d)"
proof -
  let ?keep = "keep_mask d"
  let ?idx = "pick ?keep [0..<nrows d]"
  let ?k = "length (filter (\<lambda>b. b) ?keep)"
  have k: "length ?idx = ?k" by (simp add: length_pick length_keep_mask)
  have nr: "nrows (dropna d) = ?k" by (simp add: dropna_def Let_def)
  have cols: "columns (dropna d) = map (\<lambda>(n, c). (n, col_pick ?keep c)) (columns d)"
    by (simp add: dropna_def Let_def)
  have r: "row (dropna d) j = row d (?idx ! j)" if "j < ?k" for j
  proof -
    have "col_cell (col_pick ?keep c) j = col_cell c (?idx ! j)" if "(n, c) \<in> set (columns d)" for n c
      using col_cell_pick [of j ?keep c] wf_col_len [OF assms that] \<open>j < ?k\<close> k by simp
    then show ?thesis
      unfolding row_def cols by (auto simp: comp_def split: prod.splits)
  qed
  have "rows (dropna d) = map (\<lambda>j. row d (?idx ! j)) [0..<?k]"
    unfolding rows_def nr using r by simp
  also have "\<dots> = map (row d) (map (\<lambda>j. ?idx ! j) [0..<length ?idx])"
    by (simp add: k)
  also have "\<dots> = map (row d) ?idx" by (simp only: map_nth)
  also have "\<dots> = pick ?keep (rows d)" by (simp add: pick_map rows_def)
  also have "\<dots> = filter (\<lambda>r. \<not> list_ex cell_isnull r) (rows d)"
    by (simp only: keep_mask_rows [OF assms] pick_filter)
  finally show ?thesis .
qed

lemma dropna_names: "map fst (columns (dropna d)) = map fst (columns d)"
  by (simp add: dropna_def Let_def comp_def case_prod_beta)

lemma dropna_wf:
  assumes "wf_dataframe d"
  shows "wf_dataframe (dropna d)"
proof -
  have "col_len (col_pick (keep_mask d) c) = length (filter (\<lambda>b. b) (keep_mask d))"
    if "(n, c) \<in> set (columns d)" for n c
    using col_len_pick [of c "keep_mask d"] wf_col_len [OF assms that] length_keep_mask by simp
  then have "list_all (\<lambda>(n, c). col_len c = nrows (dropna d)) (columns (dropna d))"
    by (auto simp: dropna_def Let_def list_all_iff)
  moreover have "distinct (map fst (columns (dropna d)))"
    using assms by (simp add: dropna_names wf_dataframe_def)
  ultimately show ?thesis by (simp add: wf_dataframe_def)
qed

lemma length_rows: "length (rows d) = nrows d"
  by (simp add: rows_def)

lemma assign_number_names: "map fst (assign_number cs X) = map fst cs"
  by (induction cs X rule: assign_number.induct) auto

lemma assign_number_length: "length (assign_number cs X) = length cs"
  by (induction cs X rule: assign_number.induct) auto

lemma assign_number_obj:
  "i < length cs \<Longrightarrow> snd (cs ! i) = ObjCol os \<Longrightarrow> assign_number cs X ! i = cs ! i"
proof (induction cs X arbitrary: i rule: assign_number.induct)
  case (1 X)
  then show ?case by simp
next
  case (2 n os' cs X)
  then show ?case by (cases i) auto
next
  case (3 n xs cs)
  then show ?case by (cases i) auto
next
  case (4 n xs cs x X)
  then show ?case by (cases i) auto
qed

lemma assign_number_col_len:
  "list_all (\<lambda>(n, c). col_len c = k) cs \<Longrightarrow> list_all (\<lambda>x. length x = k) X \<Longrightarrow>
   list_all (\<lambda>(n, c). col_len c = k) (assign_number cs X)"
  by (induction cs X rule: assign_number.induct) auto

lemma select_number_len:
  "list_all (\<lambda>(n, c). col_len c = k) cs \<Longrightarrow> list_all (\<lambda>xs. length xs = k) (map snd (select_number cs))"
  by (induction cs rule: select_number.induct) auto

lemma fit_transform_len:
  assumes "fit_transform s n X = Inr Y" "list_all (\<lambda>xs. length xs = k) X"
  shows "list_all (\<lambda>y. length y = k) Y"
proof -
  have Y: "Y = List.map_filter
                  (\<lambda>xs. case statistic s xs of None \<Rightarrow> None | Some v \<Rightarrow> Some (impute v xs)) X"
    using assms(1) by (simp add: fit_transform_def split: if_splits)
  show ?thesis unfolding Y using assms(2)
    by (auto simp: List.map_filter_def list_all_iff impute_def split: option.splits)
qed

lemma fill_number_props:
  assumes "fill_number s d = Inr d'"
  shows "nrows d' = nrows d"
    and "map fst (columns d') = map fst (columns d)"
    and "length (columns d') = length (columns d)"
    and "\<And>i os. i < length (columns d) \<Longrightarrow> snd (columns d ! i) = ObjCol os \<Longrightarrow>
           columns d' ! i = columns d ! i"
    and "wf_dataframe d \<Longrightarrow> wf_dataframe d'"
proof -
  let ?num = "select_number (columns d)"
  from assms obtain X where
    X: "fit_transform s (nrows d) (map snd ?num) = Inr X"
    and d': "d' = d\<lparr>columns := assign_number (columns d) X\<rparr>"
    by (auto simp: fill_number_def Let_def split: sum.splits if_splits)
  show "nrows d' = nrows d" by (simp add: d')
  show "map fst (columns d') = map fst (columns d)" by (simp add: d' assign_number_names)
  show "length (columns d') = length (columns d)" by (simp add: d' assign_number_length)
  show "columns d' ! i = columns d ! i"
    if "i < length (columns d)" "snd (columns d ! i) = ObjCol os" for i os
    using that by (simp add: d' assign_number_obj)
  show "wf_dataframe d'" if wf: "wf_dataframe d"
  proof -
    have l: "list_all (\<lambda>(n, c). col_len c = nrows d) (columns d)"
      using wf by (simp add: wf_dataframe_def)
    have "list_all (\<lambda>x. length x = nrows d) X"
      using fit_transform_len [OF X select_number_len [OF l]] .
    then have "list_all (\<lambda>(n, c). col_len c = nrows d) (assign_number (columns d) X)"
      using assign_number_col_len [OF l] by blast
    then show ?thesis using wf by (simp add: wf_dataframe_def d' assign_number_names)
  qed
qed

lemma fill_with_mean_df:
  assumes "df v = Some d" "fill_with_mean v = Inr v'"
  shows "\<exists>d'. fill_number Mean d = Inr d' \<and> df v' = Some d'"
  using assms by (auto simp: fill_with_mean_def display_data_in_table_def split: sum.splits)

lemma fill_with_median_df:
  assumes "df v = Some d" "fill_with_median v = Inr v'"
  shows "\<exists>d'. fill_number Median d = Inr d' \<and> df v' = Some d'"
  using assms by (auto simp: fill_with_median_def display_data_in_table_def split: sum.splits)

lemma fill_with_constant_df:
  assumes "df v = Some d" "fill_with_constant val ok v = Inr v'"
  shows "(\<exists>d'. fill_number (Constant val) d = Inr d' \<and> df v' = Some d') \<or> df v' = Some d"
  using assms
  by (auto simp: fill_with_constant_def display_data_in_table_def split: sum.splits if_splits)

lemma confirm_preprocessing_df:
  "df (confirm_preprocessing val ok v) =
     (case (if options_index v = 1 then Inr (remove_missing_values v)
            else if options_index v = 2 then fill_with_mean v
            else if options_index v = 3 then fill_with_median v
            else if options_index v = 4 then fill_with_constant val ok v
            else Inr v) of
        Inl e \<Rightarrow> df v
      | Inr v1 \<Rightarrow> df v1)"
  unfolding confirm_preprocessing_def
  by (simp add: display_data_in_table_def split: sum.splits)

lemma wf_mixed: "wf_dataframe mixed"
  by (simp add: wf_dataframe_def mixed_def)

lemma holding_df: "df (holding d) = Some d"
  by (simp add: holding_def)

lemma mean_mixed_returns:
  "case fill_with_mean (holding mixed) of Inl e \<Rightarrow> False | Inr v' \<Rightarrow> True"
  by code_simp

lemma mixed_complete_rows:
  "filter (\<lambda>r. \<not> list_ex cell_isnull r) (rows mixed) = [[NumCell (Some 1), ObjCell (PyStr ''red'')]]"
  by code_simp

text \<open>
  Claim C3.  On a well-formed table, \<open>fill_with_mean\<close> and \<open>fill_with_median\<close>,
  when they return, leave a table with the same number of rows (and every column
  still of that length); when the imputer raises instead, \<open>confirm_preprocessing\<close>
  keeps the table, so the row count is the same either way.
  \<open>remove_missing_values\<close> leaves exactly the rows without a null cell, in their
  order, under the same column names.
\<close>

theorem missing_value_strategies_rows:
  assumes "df v = Some d" and "wf_dataframe d"
  shows "(\<forall>v'. fill_with_mean v = Inr v' \<or> fill_with_median v = Inr v' \<longrightarrow>
            (\<exists>d'. df v' = Some d' \<and> nrows d' = nrows d \<and>
                  length (rows d') = length (rows d) \<and> wf_dataframe d')) \<and>
         (options_index v = 2 \<or> options_index v = 3 \<longrightarrow>
            (\<exists>d'. df (confirm_preprocessing val ok v) = Some d' \<and> nrows d' = nrows d)) \<and>
         (\<exists>d'. df (remove_missing_values v) = Some d' \<and>
               rows d' = filter (\<lambda>r. \<not> list_ex cell_isnull r) (rows d) \<and>
               map fst (columns d') = map fst (columns d))"
proof (intro conjI allI impI)
  fix v' assume a: "fill_with_mean v = Inr v' \<or> fill_with_median v = Inr v'"
  then obtain s d' where "fill_number s d = Inr d'" "df v' = Some d'"
    using fill_with_mean_df [OF assms(1)] fill_with_median_df [OF assms(1)] by blast
  then show "\<exists>d'. df v' = Some d' \<and> nrows d' = nrows d \<and>
                  length (rows d') = length (rows d) \<and> wf_dataframe d'"
    using fill_number_props(1,5) [of s d d'] assms(2) by (simp add: length_rows)
next
  assume i: "options_index v = 2 \<or> options_index v = 3"
  let ?r = "if options_index v = 2 then fill_with_mean v else fill_with_median v"
  have c: "df (confirm_preprocessing val ok v) = (case ?r of Inl e \<Rightarrow> df v | Inr v1 \<Rightarrow> df v1)"
    using i by (auto simp: confirm_preprocessing_df)
  show "\<exists>d'. df (confirm_preprocessing val ok v) = Some d' \<and> nrows d' = nrows d"
  proof (cases ?r)
    case (Inl e)
    then show ?thesis using c assms(1) by simp
  next
    case (Inr v1)
    then have "fill_with_mean v = Inr v1 \<or> fill_with_median v = Inr v1" by (auto split: if_splits)
    then obtain s d' where "fill_number s d = Inr d'" "df v1 = Some d'"
      using fill_with_mean_df [OF assms(1)] fill_with_median_df [OF assms(1)] by blast
    then show ?thesis using c Inr fill_number_props(1) [of s d d'] by simp
  qed
next
  show "\<exists>d'. df (remove_missing_values v) = Some d' \<and>
               rows d' = filter (\<lambda>r. \<not> list_ex cell_isnull r) (rows d) \<and>
               map fst (columns d') = map fst (columns d)"
    using assms
    by (simp add: remove_missing_values_def display_data_in_table_def dropna_rows dropna_names)
qed

theorem missing_value_strategies_rows_witness:
  "df (holding mixed) = Some mixed \<and> wf_dataframe mixed \<and>
   (case fill_with_mean (holding mixed) of
      Inl e \<Rightarrow> False
    | Inr v' \<Rightarrow> map_option nrows (df v') = Some 3) \<and>
   map_option rows (df (remove_missing_values (holding mixed))) =
     Some [[NumCell (Some 1), ObjCell (PyStr ''red'')]]"
proof -
  note main = missing_value_strategies_rows [OF holding_df wf_mixed, of 0 True]
  from mean_mixed_returns obtain v' where v': "fill_with_mean (holding mixed) = Inr v'"
    by (cases "fill_with_mean (holding mixed)") simp_all
  with main obtain d' where "df v' = Some d'" "nrows d' = nrows mixed" by blast
  then have a: "map_option nrows (df v') = Some 3" by (simp add: mixed_def)
  from main obtain d2 where "df (remove_missing_values (holding mixed)) = Some d2"
    "rows d2 = filter (\<lambda>r. \<not> list_ex cell_isnull r) (rows mixed)" by blast
  then have b: "map_option rows (df (remove_missing_values (holding mixed))) =
     Some [[NumCell (Some 1), ObjCell (PyStr ''red'')]]"
    by (simp add: mixed_complete_rows)
  show ?thesis using a b v' holding_df wf_mixed by simp
qed

text \<open>
  Claim C4.  \<open>fill_with_mean\<close>, \<open>fill_with_median\<close> and \<open>fill_with_constant\<close>
  leave the column names and every non-numeric column, nulls included, exactly as
  they were; so does \<open>confirm_preprocessing\<close> with one of these three options,
  whether the imputer returns or raises.
\<close>

theorem fill_leaves_categorical_columns:
  assumes "df v = Some d"
  shows "(\<forall>v'. fill_with_mean v = Inr v' \<or> fill_with_median v = Inr v' \<or>
              fill_with_constant val ok v = Inr v' \<longrightarrow>
            (\<exists>d'. df v' = Some d' \<and> map fst (columns d') = map fst (columns d) \<and>
                  (\<forall>i os. i < length (columns d) \<and> snd (columns d ! i) = ObjCol os \<longrightarrow>
                     columns d' ! i = columns d ! i))) \<and>
         (options_index v = 2 \<or> options_index v = 3 \<or> options_index v = 4 \<longrightarrow>
            (\<exists>d'. df (confirm_preprocessing val ok v) = Some d' \<and>
                  map fst (columns d') = map fst (columns d) \<and>
                  (\<forall>i os. i < length (columns d) \<and> snd (columns d ! i) = ObjCol os \<longrightarrow>
                     columns d' ! i = columns d ! i)))"
proof -
  have main: "\<exists>d'. df v' = Some d' \<and> map fst (columns d') = map fst (columns d) \<and>
                  (\<forall>i os. i < length (columns d) \<and> snd (columns d ! i) = ObjCol os \<longrightarrow>
                     columns d' ! i = columns d ! i)"
    if a: "fill_with_mean v = Inr v' \<or> fill_with_median v = Inr v' \<or>
           fill_with_constant val ok v = Inr v'" for v'
  proof -
    from a consider s d' where "fill_number s d = Inr d'" "df v' = Some d'" | "df v' = Some d"
      using fill_with_mean_df [OF assms] fill_with_median_df [OF assms]
        fill_with_constant_df [OF assms] by blast
    then show ?thesis
    proof cases
      case 1
      then show ?thesis using fill_number_props(2,4) [of s d d'] by blast
    next
      case 2
      then show ?thesis by simp
    qed
  qed
  have second: "\<exists>d'. df (confirm_preprocessing val ok v) = Some d' \<and>
                  map fst (columns d') = map fst (columns d) \<and>
                  (\<forall>i os. i < length (columns d) \<and> snd (columns d ! i) = ObjCol os \<longrightarrow>
                     columns d' ! i = columns d ! i)"
    if i: "options_index v = 2 \<or> options_index v = 3 \<or> options_index v = 4"
  proof -
    let ?r = "if options_index v = 2 then fill_with_mean v
              else if options_index v = 3 then fill_with_median v
              else fill_with_constant val ok v"
    have c: "df (confirm_preprocessing val ok v) = (case ?r of Inl e \<Rightarrow> df v | Inr v1 \<Rightarrow> df v1)"
      using i by (auto simp: confirm_preprocessing_df)
    show ?thesis
    proof (cases ?r)
      case (Inl e)
      then show ?thesis using c assms by simp
    next
      case (Inr v1)
      then have "fill_with_mean v = Inr v1 \<or> fill_with_median v = Inr v1 \<or>
                 fill_with_constant val ok v = Inr v1" by (auto split: if_splits)
      from main [OF this] show ?thesis using c Inr by simp
    qed
  qed
  from main second show ?thesis by blast
qed

theorem fill_leaves_categorical_columns_witness:
  "df (holding mixed) = Some mixed \<and>
   (case fill_with_mean (holding mixed) of
      Inl e \<Rightarrow> False
    | Inr v' \<Rightarrow> map_option (\<lambda>d. columns d ! 1) (df v') =
                  Some (''c'', ObjCol [PyStr ''red'', PyStr ''green'', PyNone]))"
proof -
  note main = fill_leaves_categorical_columns [OF holding_df, of mixed 0 True]
  from mean_mixed_returns obtain v' where v': "fill_with_mean (holding mixed) = Inr v'"
    by (cases "fill_with_mean (holding mixed)") simp_all
  have c: "1 < length (columns mixed) \<and>
           snd (columns mixed ! 1) = ObjCol [PyStr ''red'', PyStr ''green'', PyNone]"
    by (simp add: mixed_def)
  from main v' obtain d' where d': "df v' = Some d'"
    "\<forall>i os. i < length (columns mixed) \<and> snd (columns mixed ! i) = ObjCol os \<longrightarrow>
        columns d' ! i = columns mixed ! i" by blast
  from d'(2) c have "columns d' ! 1 = columns mixed ! 1" by blast
  then have "columns d' ! 1 = (''c'', ObjCol [PyStr ''red'', PyStr ''green'', PyNone])"
    by (simp add: mixed_def)
  then show ?thesis using v' d'(1) holding_df by simp
qed

section \<open>Properties of saving and loading\<close>

text \<open>
  Claim C5.  When the path can be written, \<open>load_model\<close> after \<open>save_model\<close> on the
  same path returns a dictionary whose model is the saved model, so that
  \<open>predict\<close> gives the same value on every input; columns, formula, metrics and
  graph come back as saved, the description stripped or replaced by the default.
\<close>

theorem save_then_load:
  assumes "writable dk path"
  shows "\<exists>data. load_model path (save_model saver path dk) = Some data \<and>
           md_model data = md_model saver \<and>
           (\<forall>sk x. predict sk (md_model data) x = predict sk (md_model saver) x) \<and>
           md_input_columns data = md_input_columns saver \<and>
           md_output_column data = md_output_column saver \<and>
           md_formula data = md_formula saver \<and> md_mse data = md_mse saver \<and>
           md_r_squared data = md_r_squared saver \<and> md_graph data = md_graph saver \<and>
           md_description data =
             (if strip (md_description saver) \<noteq> [] then strip (md_description saver)
              else ''No description provided.'')"
  using assms by (simp add: load_model_def save_model_def Let_def)

lemma failed_save_keeps_file:
  "\<not> writable dk path \<Longrightarrow> load_model path (save_model saver path dk) = load_model path dk"
  by (simp add: save_model_def Let_def)

theorem save_then_load_witness:
  "writable blank_disk ''m.joblib'' \<and>
   map_option md_model (load_model ''m.joblib'' (save_model line_artifact ''m.joblib'' blank_disk))
     = Some \<lparr>intercept = Finite 0, coef = [Finite 2]\<rparr> \<and>
   map_option md_description (load_model ''m.joblib'' (save_model line_artifact ''m.joblib'' blank_disk))
     = Some ''No description provided.''"
proof -
  have w: "writable blank_disk ''m.joblib''" by (simp add: blank_disk_def)
  have s: "strip (md_description line_artifact) = []" by code_simp
  from save_then_load [OF w, of line_artifact] obtain data where
    "load_model ''m.joblib'' (save_model line_artifact ''m.joblib'' blank_disk) = Some data"
    "md_model data = md_model line_artifact"
    "md_description data =
       (if strip (md_description line_artifact) \<noteq> [] then strip (md_description line_artifact)
        else ''No description provided.'')"
    by blast
  then show ?thesis using w s by (simp add: line_artifact_def)
qed


end
